theory Spec2Isabelle
  imports Complex_Main
begin

section \<open>Python values shared by the two modules\<close>

text \<open>
  Exceptions of the Python source are values. \<open>CollaboratorError\<close> stands for whatever
  an external collaborator (completion service, HTTP wrapper, planner, selector,
  interpreter) may raise; the source catches none of them. \<open>ValueError\<close> also stands
  for its subclass \<open>json.JSONDecodeError\<close>.
\<close>

datatype py_exception =
    ValueError
  | NotImplementedError
  | TypeError
  | KeyError
  | IndexError
  | AttributeError
  | UnboundLocalError
  | CollaboratorError string

type_synonym 'a result = "py_exception + 'a"

definition and_then :: "'a result \<Rightarrow> ('a \<Rightarrow> 'b result) \<Rightarrow> 'b result" where
  \<comment> \<open>sequencing: the first exception raised ends the computation\<close>
  "and_then r f = (case r of Inl e \<Rightarrow> Inl e | Inr v \<Rightarrow> f v)"

subsection \<open>Strings\<close>

text \<open>
  A Python \<open>str\<close> is a \<open>string\<close>; a \<open>char\<close> is one code point below 256, and
  \<open>length\<close> counts what Python's \<open>len\<close> counts on such a text.
\<close>

definition newline :: char where
  "newline = CHR 0x0A"

definition is_space :: "char \<Rightarrow> bool" where
  \<comment> \<open>\<open>str.isspace\<close> of one character, which is also the class \<open>\s\<close> of \<open>re\<close>\<close>
  "is_space c =
     (let n = (of_char c :: nat)
      in (9 \<le> n \<and> n \<le> 13) \<or> (28 \<le> n \<and> n \<le> 32) \<or> n = 133 \<or> n = 160)"

definition starts_with :: "string \<Rightarrow> string \<Rightarrow> bool" where
  \<comment> \<open>\<open>s.startswith(p)\<close>\<close>
  "starts_with p s = (take (length p) s = p)"

fun contains :: "string \<Rightarrow> string \<Rightarrow> bool" where
  \<comment> \<open>\<open>sub in s\<close>, also \<open>bool(re.search(sub, s))\<close> for a pattern of literal characters\<close>
  "contains sub [] = (sub = [])"
| "contains sub (c # cs) = (starts_with sub (c # cs) \<or> contains sub cs)"

fun str_find :: "string \<Rightarrow> string \<Rightarrow> nat option" where
  \<comment> \<open>\<open>s.find(sub)\<close>: the first index, \<open>None\<close> for Python's \<open>-1\<close>\<close>
  "str_find sub [] = (if sub = [] then Some 0 else None)"
| "str_find sub (c # cs) =
     (if starts_with sub (c # cs) then Some 0 else map_option Suc (str_find sub cs))"

fun str_rfind :: "string \<Rightarrow> string \<Rightarrow> nat option" where
  \<comment> \<open>\<open>s.rfind(sub)\<close>: the last index\<close>
  "str_rfind sub [] = (if sub = [] then Some 0 else None)"
| "str_rfind sub (c # cs) =
     (case str_rfind sub cs of
        Some i \<Rightarrow> Some (Suc i)
      | None \<Rightarrow> if starts_with sub (c # cs) then Some 0 else None)"

definition index_or_minus_one :: "nat option \<Rightarrow> int" where
  "index_or_minus_one r = (case r of None \<Rightarrow> - 1 | Some i \<Rightarrow> int i)"

definition py_slice :: "string \<Rightarrow> int \<Rightarrow> int \<Rightarrow> string" where
  \<comment> \<open>\<open>s[a:b]\<close>: a negative bound counts from the end, and both are clamped\<close>
  "py_slice s a b =
     (let n = int (length s);
          lo = (if a < 0 then max (a + n) 0 else min a n);
          hi = (if b < 0 then max (b + n) 0 else min b n)
      in take (nat (hi - lo)) (drop (nat lo) s))"

definition strip_where :: "(char \<Rightarrow> bool) \<Rightarrow> string \<Rightarrow> string" where
  "strip_where P s = rev (dropWhile P (rev (dropWhile P s)))"

definition strip :: "string \<Rightarrow> string" where
  \<comment> \<open>\<open>s.strip()\<close>\<close>
  "strip s = strip_where is_space s"

definition strip_chars :: "string \<Rightarrow> string \<Rightarrow> string" where
  \<comment> \<open>\<open>s.strip(chars)\<close>\<close>
  "strip_chars chars s = strip_where (\<lambda>c. c \<in> set chars) s"

lemma str_find_bound: "str_find sub s = Some i \<Longrightarrow> i + length sub \<le> length s"
proof (induction s arbitrary: i)
  case Nil
  then show ?case by (simp split: if_splits)
next
  case (Cons c cs)
  show ?case
  proof (cases "starts_with sub (c # cs)")
    case True
    then have "length (take (length sub) (c # cs)) = length sub"
      unfolding starts_with_def by (rule arg_cong)
    then have "length sub \<le> length (c # cs)"
      unfolding length_take by (simp add: min_def split: if_splits)
    with Cons.prems True show ?thesis by simp
  next
    case False
    with Cons.prems obtain j where "str_find sub cs = Some j" "i = Suc j" by auto
    with Cons.IH show ?thesis by auto
  qed
qed

function py_split :: "string \<Rightarrow> string \<Rightarrow> string list" where
  \<comment> \<open>\<open>s.split(sep)\<close> for a separator that is not empty (every separator of the source
      is a literal): the occurrences are taken from the left, without overlap\<close>
  "py_split sep s =
     (case (if sep = [] then None else str_find sep s) of
        None \<Rightarrow> [s]
      | Some i \<Rightarrow> take i s # py_split sep (drop (i + length sep) s))"
  by pat_completeness auto
termination
proof (relation "measure (\<lambda>(sep, s). length s)")
  show "wf (measure (\<lambda>(sep, s). length s))" by simp
next
  fix sep s :: string and i
  assume "(if sep = [] then None else str_find sep s) = Some i"
  then have "sep \<noteq> []" and "str_find sep s = Some i" by (auto split: if_splits)
  from str_find_bound[OF this(2)] this(1)
  show "((sep, drop (i + length sep) s), (sep, s)) \<in> measure (\<lambda>(sep, s). length s)"
    by (cases sep) auto
qed

function replace_all :: "string \<Rightarrow> string \<Rightarrow> string \<Rightarrow> string" where
  \<comment> \<open>\<open>s.replace(old, new)\<close>; an empty \<open>old\<close> matches before every character and at
      the end\<close>
  "replace_all old new s =
     (if old = [] then new @ concat (map (\<lambda>c. c # new) s)
      else case str_find old s of
        None \<Rightarrow> s
      | Some i \<Rightarrow> take i s @ new @ replace_all old new (drop (i + length old) s))"
  by pat_completeness auto
termination
proof (relation "measure (\<lambda>(old, new, s). length s)")
  show "wf (measure (\<lambda>(old, new, s). length s))" by simp
next
  fix old new s :: string and i
  assume "old \<noteq> []" and "str_find old s = Some i"
  from str_find_bound[OF this(2)] this(1)
  show "((old, new, drop (i + length old) s), (old, new, s)) \<in> measure (\<lambda>(old, new, s). length s)"
    by (cases old) auto
qed

subsection \<open>Dynamically typed values\<close>

text \<open>
  What \<open>json.loads\<close> returns, and what the documentation objects of the reduced
  specification are made of. \<open>JNull\<close> is Python's \<open>None\<close>. A dictionary keeps its
  insertion order; a key occurs once.
\<close>

datatype json =
    JNull
  | JBool bool
  | JNum int
  | JStr string
  | JArr "json list"
  | JObj "(string \<times> json) list"

fun dict_set :: "string \<Rightarrow> json \<Rightarrow> (string \<times> json) list \<Rightarrow> (string \<times> json) list" where
  \<comment> \<open>\<open>d[k] = v\<close>: an existing key keeps its place\<close>
  "dict_set k v [] = [(k, v)]"
| "dict_set k v ((k', v') # kvs) = (if k' = k then (k, v) # kvs else (k', v') # dict_set k v kvs)"

definition py_in :: "string \<Rightarrow> json \<Rightarrow> bool result" where
  \<comment> \<open>\<open>k in x\<close> for a string \<open>k\<close>\<close>
  "py_in k x =
     (case x of
        JObj kvs \<Rightarrow> Inr (k \<in> fst ` set kvs)
      | JStr s \<Rightarrow> Inr (contains k s)
      | JArr xs \<Rightarrow> Inr (JStr k \<in> set xs)
      | _ \<Rightarrow> Inl TypeError)"

definition py_getitem :: "json \<Rightarrow> string \<Rightarrow> json result" where
  \<comment> \<open>\<open>x[k]\<close> for a string \<open>k\<close>\<close>
  "py_getitem x k =
     (case x of
        JObj kvs \<Rightarrow> (case map_of kvs k of None \<Rightarrow> Inl KeyError | Some v \<Rightarrow> Inr v)
      | _ \<Rightarrow> Inl TypeError)"

definition py_setitem :: "json \<Rightarrow> string \<Rightarrow> json \<Rightarrow> json result" where
  \<comment> \<open>\<open>x[k] = v\<close>: the value of \<open>x\<close> afterwards\<close>
  "py_setitem x k v =
     (case x of
        JObj kvs \<Rightarrow> Inr (JObj (dict_set k v kvs))
      | _ \<Rightarrow> Inl TypeError)"

definition py_get :: "json \<Rightarrow> string \<Rightarrow> json \<Rightarrow> json result" where
  \<comment> \<open>\<open>x.get(k, default)\<close>\<close>
  "py_get x k dflt =
     (case x of
        JObj kvs \<Rightarrow> (case map_of kvs k of None \<Rightarrow> Inr dflt | Some v \<Rightarrow> Inr v)
      | _ \<Rightarrow> Inl AttributeError)"

definition py_pop :: "json \<Rightarrow> string \<Rightarrow> json result" where
  \<comment> \<open>\<open>x.pop(k)\<close>: the value of \<open>x\<close> afterwards\<close>
  "py_pop x k =
     (case x of
        JObj kvs \<Rightarrow>
          (case map_of kvs k of
             None \<Rightarrow> Inl KeyError
           | Some v \<Rightarrow> Inr (JObj (filter (\<lambda>kv. fst kv \<noteq> k) kvs)))
      | _ \<Rightarrow> Inl AttributeError)"

fun truthy :: "json \<Rightarrow> bool" where
  "truthy JNull = False"
| "truthy (JBool b) = b"
| "truthy (JNum n) = (n \<noteq> 0)"
| "truthy (JStr s) = (s \<noteq> [])"
| "truthy (JArr xs) = (xs \<noteq> [])"
| "truthy (JObj kvs) = (kvs \<noteq> [])"

fun get_path :: "json \<Rightarrow> string list \<Rightarrow> json result" where
  \<comment> \<open>\<open>x[k1][k2]...\<close>\<close>
  "get_path x [] = Inr x"
| "get_path x (k # ks) = and_then (py_getitem x k) (\<lambda>child. get_path child ks)"

fun set_path :: "json \<Rightarrow> string list \<Rightarrow> string \<Rightarrow> json \<Rightarrow> json result" where
  \<comment> \<open>\<open>x[k1][k2]...[k] = v\<close>, seen from \<open>x\<close>: the dictionaries on the way are the
      objects \<open>x\<close> holds, so the assignment changes \<open>x\<close>\<close>
  "set_path x [] k v = py_setitem x k v"
| "set_path x (k1 # ks) k v =
     and_then (py_getitem x k1) (\<lambda>child.
     and_then (set_path child ks k v) (\<lambda>child'. py_setitem x k1 child'))"

section \<open>The Caller: \<open>model/caller.py\<close>\<close>

subsection \<open>The reduced specification and the collaborators\<close>

text \<open>
  \<open>ReducedOpenAPISpec\<close>: the servers (each a dictionary with a \<open>url\<close>) and the
  endpoints, triples of name, summary and documentation object. The documentation
  objects are shared: the Caller's \<open>endpoint_docs_by_name\<close> holds references to the
  objects of \<open>api_spec.endpoints\<close>, not copies. The position of a triple in
  \<open>endpoints\<close> is the address of its documentation object.
\<close>

record reduced_spec =
  servers :: "(string \<times> string) list list"
  endpoints :: "(string \<times> string option \<times> json) list"

text \<open>The fields of a \<open>Caller\<close> that \<open>_call\<close> reads.\<close>

record caller_obj =
  api_spec :: reduced_spec
  scenario :: string
  with_response :: bool

datatype http_request =
    Get json "json option"
  | Post json json json
  | Put json json json
  | Delete json json json

datatype http_response =
    Response int string
  | Text string
  | Other

text \<open>
  What the Caller uses and the sources at hand do not define: the endpoint matcher
  \<open>utils.get_matched_endpoint\<close>, \<open>yaml.dump\<close>, the tokenizer of \<open>tiktoken\<close>,
  the completion service (given the variables of the prompt: base URL, documentation
  excerpt, plan, background), \<open>json.loads\<close> (\<open>None\<close> when it raises
  \<open>JSONDecodeError\<close>), the HTTP wrapper, and the response interpreter (given the API
  path and documentation object it is built with, then \<open>query\<close>,
  \<open>response_description\<close>, \<open>api_param\<close> and \<open>json\<close>).
  A \<open>Get\<close> request carries the URL and the parameters when the source passes them;
  the other requests carry URL, parameters and body. A response is a
  \<open>requests.models.Response\<close> with status code and text, a \<open>str\<close>, or anything else.
\<close>

record externals =
  get_matched_endpoint :: "reduced_spec \<Rightarrow> string \<Rightarrow> string list option"
  yaml_dump :: "json \<Rightarrow> string"
  encode :: "string \<Rightarrow> nat list"
  decode :: "nat list \<Rightarrow> string"
  llm :: "string \<Rightarrow> string \<Rightarrow> string \<Rightarrow> string \<Rightarrow> string result"
  json_loads :: "string \<Rightarrow> json option"
  requests_wrapper :: "http_request \<Rightarrow> http_response result"
  parser_class :: "string \<Rightarrow> json \<Rightarrow> json \<Rightarrow> json \<Rightarrow> json \<Rightarrow> string \<Rightarrow> string result"

text \<open>
  What one execution step did, in order, besides its outcome: the trace is not in the
  source. \<open>spec_after\<close> is the reduced specification as the step leaves it.
\<close>

datatype caller_event =
    LlmInvoke string string string string
  | HttpRequest http_request
  | ParserInvoke string json json json json string

record step =
  outcome :: "string result"
  events :: "caller_event list"
  spec_after :: reduced_spec

subsection \<open>\<open>__init__\<close>: the name-to-documentation mapping\<close>

fun index_by_name :: "nat \<Rightarrow> (string \<times> string option \<times> json) list \<Rightarrow> string \<Rightarrow> nat option" where
  \<comment> \<open>\<open>{name: docs for name, _, docs in self.api_spec.endpoints}\<close>: the address bound to
      a name; of two triples with one name the later wins\<close>
  "index_by_name i [] name = None"
| "index_by_name i (e # es) name =
     (case index_by_name (Suc i) es name of
        Some j \<Rightarrow> Some j
      | None \<Rightarrow> if fst e = name then Some i else None)"

definition endpoint_docs_by_name :: "reduced_spec \<Rightarrow> string \<Rightarrow> nat option" where
  "endpoint_docs_by_name spec name = index_by_name 0 (endpoints spec) name"

definition deref :: "reduced_spec \<Rightarrow> nat option \<Rightarrow> json" where
  \<comment> \<open>the object a reference denotes; \<open>dict.get\<close> gives \<open>None\<close> for an unknown name\<close>
  "deref spec r = (case r of None \<Rightarrow> JNull | Some i \<Rightarrow> snd (snd (endpoints spec ! i)))"

definition store :: "reduced_spec \<Rightarrow> nat \<Rightarrow> json \<Rightarrow> reduced_spec" where
  \<comment> \<open>the specification after the object at an address has changed in place\<close>
  "store spec i doc =
     spec\<lparr>endpoints := (endpoints spec)[i := (fst (endpoints spec ! i), fst (snd (endpoints spec ! i)), doc)]\<rparr>"

subsection \<open>\<open>_get_action_and_input\<close>\<close>

definition search_operation_input :: "string \<Rightarrow> (string \<times> string) option" where
  \<comment> \<open>\<open>re.search(r"Operation:[\s]*(.*?)[\n]*Input:[\s]*(.*)", s, re.DOTALL)\<close>, groups 1
      and 2. The match starts at the first \<open>Operation:\<close>; the greedy \<open>[\s]*\<close> takes
      all the white space after it; the lazy group 1 ends where \<open>[\n]*Input:\<close> first
      matches, that is before the newlines in front of the first \<open>Input:\<close> that
      follows; group 2 is the rest of the text after the white space behind \<open>Input:\<close>.\<close>
  "search_operation_input s =
     (case str_find ''Operation:'' s of
        None \<Rightarrow> None
      | Some i \<Rightarrow>
          (let after_operation = dropWhile is_space (drop (i + length ''Operation:'') s) in
           case str_find ''Input:'' after_operation of
             None \<Rightarrow> None
           | Some j \<Rightarrow>
               Some (rev (dropWhile (\<lambda>c. c = newline) (rev (take j after_operation))),
                     dropWhile is_space (drop (j + length ''Input:'') after_operation))))"

definition get_action_and_input :: "string \<Rightarrow> (string \<times> string) result" where
  "get_action_and_input llm_output =
     (if contains ''Execution Result:'' llm_output then
        Inr (''DONE'', strip (last (py_split ''Execution Result:'' llm_output)))
      else
        case search_operation_input llm_output of
          None \<Rightarrow> Inl ValueError
        | Some (group1, group2) \<Rightarrow>
            (let action = strip group1 in
             if action \<notin> set [''GET'', ''POST'', ''DELETE'', ''PUT''] then Inl NotImplementedError
             else
               (let action_input = strip_chars ''`'' (strip group2);
                    left_bracket = index_or_minus_one (str_find ''{'' action_input);
                    right_bracket = index_or_minus_one (str_rfind ''}'' action_input)
                in Inr (action, py_slice action_input left_bracket (right_bracket + 1)))))"

subsection \<open>\<open>_get_response\<close>\<close>

text \<open>
  What \<open>_get_response\<close> returns: the bare text of a response whose status is not 200
  (\<open>return response.text\<close>), or the tuple of five
  (\<open>return response_text, params, request_body, desc, query\<close>).
\<close>

datatype get_response_value =
    Bare string
  | Tuple5 string json json json json

definition body_request ::
  "(json \<Rightarrow> json \<Rightarrow> json \<Rightarrow> http_request) \<Rightarrow> json \<Rightarrow> (http_request \<times> json \<times> json) result"
where
  \<comment> \<open>the branches of POST, PUT and DELETE up to the call of the wrapper\<close>
  "body_request method data =
     and_then (py_get data ''params'' JNull) (\<lambda>params.
     and_then (py_get data ''data'' JNull) (\<lambda>request_body.
     and_then (py_getitem data ''url'') (\<lambda>url.
       Inr (method url params request_body, params, request_body))))"

definition build_request :: "string \<Rightarrow> json \<Rightarrow> (http_request \<times> json \<times> json) result" where
  \<comment> \<open>the chain of \<open>if action == ...\<close> up to the call of the wrapper: the request, and
      the values of \<open>params\<close> and \<open>request_body\<close>\<close>
  "build_request action data =
     (if action = ''GET'' then
        and_then (py_in ''params'' data) (\<lambda>has_params.
          if has_params then
            and_then (py_get data ''params'' JNull) (\<lambda>params.
            and_then (py_get data ''url'' JNull) (\<lambda>url.
              Inr (Get url (Some params), params, JNull)))
          else
            and_then (py_get data ''url'' JNull) (\<lambda>url. Inr (Get url None, JNull, JNull)))
      else if action = ''POST'' then body_request Post data
      else if action = ''PUT'' then body_request Put data
      else if action = ''DELETE'' then body_request Delete data
      else Inl NotImplementedError)"

definition classify_response ::
  "http_response \<Rightarrow> json \<Rightarrow> json \<Rightarrow> json \<Rightarrow> json \<Rightarrow> get_response_value result"
where
  \<comment> \<open>from \<open>if isinstance(response, requests.models.Response)\<close> to the end\<close>
  "classify_response response params request_body desc query =
     (case response of
        Response status_code text \<Rightarrow>
          if status_code \<noteq> 200 then Inr (Bare text)
          else Inr (Tuple5 text params request_body desc query)
      | Text response_text \<Rightarrow> Inr (Tuple5 response_text params request_body desc query)
      | Other \<Rightarrow> Inl NotImplementedError)"

definition get_response ::
  "externals \<Rightarrow> string \<Rightarrow> string \<Rightarrow> http_request list \<times> get_response_value result"
where
  \<comment> \<open>the first component lists the requests the call issued\<close>
  "get_response w action action_input =
     (case json_loads w action_input of
        None \<Rightarrow> ([], Inl ValueError)
      | Some data \<Rightarrow>
          (case and_then (py_get data ''description'' (JStr ''No description'')) (\<lambda>desc.
                and_then (py_get data ''output_instructions'' JNull) (\<lambda>query.
                and_then (build_request action data) (\<lambda>(req, params, request_body).
                  Inr (desc, query, req, params, request_body)))) of
             Inl e \<Rightarrow> ([], Inl e)
           | Inr (desc, query, req, params, request_body) \<Rightarrow>
               ([req],
                and_then (requests_wrapper w req) (\<lambda>response.
                  classify_response response params request_body desc query))))"

subsection \<open>\<open>_prepare_api_docs\<close>\<close>

definition flatten_responses :: "json \<Rightarrow> json result" where
  \<comment> \<open>the block under "Traitez les responses"\<close>
  "flatten_responses tmp_docs =
     and_then (py_in ''responses'' tmp_docs) (\<lambda>has_responses.
       if \<not> has_responses then Inr tmp_docs
       else
         and_then (py_getitem tmp_docs ''responses'') (\<lambda>responses.
         and_then (py_in ''content'' responses) (\<lambda>has_content.
           if \<not> has_content then Inr tmp_docs
           else
             and_then (py_getitem responses ''content'') (\<lambda>content.
             and_then (py_in ''application/json'' content) (\<lambda>plain.
               if plain then
                 and_then (get_path content [''application/json'', ''schema'', ''properties''])
                   (\<lambda>properties. py_setitem tmp_docs ''responses'' properties)
               else
                 and_then (py_in ''application/json; charset=utf-8'' content) (\<lambda>charset.
                   if charset then
                     and_then
                       (get_path content [''application/json; charset=utf-8'', ''schema'', ''properties''])
                       (\<lambda>properties. py_setitem tmp_docs ''responses'' properties)
                   else Inr tmp_docs))))))"

definition drop_responses :: "bool \<Rightarrow> json \<Rightarrow> json result" where
  \<comment> \<open>\<open>if not self.with_response and "responses" in tmp_docs: tmp_docs.pop("responses")\<close>\<close>
  "drop_responses keep tmp_docs =
     (if keep then Inr tmp_docs
      else
        and_then (py_in ''responses'' tmp_docs) (\<lambda>has_responses.
          if has_responses then py_pop tmp_docs ''responses'' else Inr tmp_docs))"

definition limit_docs :: "externals \<Rightarrow> string \<Rightarrow> string" where
  \<comment> \<open>the block under "Limitez la taille de tmp_docs", after \<open>yaml.dump\<close>\<close>
  "limit_docs w tmp_docs =
     (let encoded_docs = encode w tmp_docs
      in if length encoded_docs > 1500 then decode w (take 1500 encoded_docs) else tmp_docs)"

definition docs_header :: "string \<Rightarrow> string" where
  "docs_header endpoint_name = ''== Docs for '' @ endpoint_name @ '' == '' @ [newline]"

definition prepare_api_docs :: "externals \<Rightarrow> caller_obj \<Rightarrow> string \<Rightarrow> (string \<times> string) result" where
  "prepare_api_docs w self plan_text =
     (case servers (api_spec self) of
        [] \<Rightarrow> Inl IndexError
      | server # _ \<Rightarrow>
          (case map_of server ''url'' of
             None \<Rightarrow> Inl KeyError
           | Some api_url \<Rightarrow>
               (case get_matched_endpoint w (api_spec self) plan_text of
                  None \<Rightarrow> Inr ([], [])
                | Some matched_endpoints \<Rightarrow>
                    if matched_endpoints = [] then Inl IndexError
                    else
                      (let endpoint_name = last matched_endpoints;
                           tmp_docs = deref (api_spec self)
                                        (endpoint_docs_by_name (api_spec self) endpoint_name)
                       in and_then (flatten_responses tmp_docs) (\<lambda>flattened.
                          and_then (drop_responses (with_response self) flattened) (\<lambda>shaped.
                            Inr (docs_header endpoint_name @ limit_docs w (yaml_dump w shaped) @ [newline],
                                 api_url)))))))"

subsection \<open>\<open>_call\<close>\<close>

definition unpack5 :: "get_response_value \<Rightarrow> (string \<times> json \<times> json \<times> json \<times> json) result" where
  \<comment> \<open>\<open>response, params, request_body, desc, query = self._get_response(...)\<close>: a tuple
      of five is taken apart; a \<open>str\<close> is iterated over, and anything but five
      characters raises \<open>ValueError\<close>\<close>
  "unpack5 v =
     (case v of
        Tuple5 response_text params request_body desc query \<Rightarrow>
          Inr (response_text, params, request_body, desc, query)
      | Bare text \<Rightarrow>
          (case text of
             [c1, c2, c3, c4, c5] \<Rightarrow> Inr ([c1], JStr [c2], JStr [c3], JStr [c4], JStr [c5])
           | _ \<Rightarrow> Inl ValueError))"

definition first_match :: "string list option \<Rightarrow> string result" where
  \<comment> \<open>\<open>get_matched_endpoint(...)[0]\<close>\<close>
  "first_match matched =
     (case matched of
        None \<Rightarrow> Inl TypeError
      | Some [] \<Rightarrow> Inl IndexError
      | Some (name # _) \<Rightarrow> Inr name)"

definition url_of :: "externals \<Rightarrow> string \<Rightarrow> json result" where
  \<comment> \<open>\<open>json.loads(action_input)["url"]\<close>\<close>
  "url_of w action_input =
     (case json_loads w action_input of
        None \<Rightarrow> Inl ValueError
      | Some data \<Rightarrow> py_getitem data ''url'')"

definition called_name :: "externals \<Rightarrow> string \<Rightarrow> string \<Rightarrow> string \<Rightarrow> string result" where
  \<comment> \<open>\<open>action + " " + json.loads(action_input)["url"].replace(api_url, "")\<close>\<close>
  "called_name w action action_input api_url =
     and_then (url_of w action_input) (\<lambda>url.
       case url of
         JStr u \<Rightarrow> Inr (action @ '' '' @ replace_all api_url [] u)
       | _ \<Rightarrow> Inl AttributeError)"

definition search_type_of :: "externals \<Rightarrow> json \<Rightarrow> string \<Rightarrow> string result" where
  \<comment> \<open>the value of \<open>search_type\<close> where the narrowing reads it; it is unbound when
      no part of the URL holds \<open>type=\<close>\<close>
  "search_type_of w params action_input =
     and_then (if params \<noteq> JNull then py_in ''type'' params else Inr False) (\<lambda>in_params.
       if in_params then
         and_then (py_getitem params ''type'') (\<lambda>t.
           case t of JStr s \<Rightarrow> Inr (s @ ''s'') | _ \<Rightarrow> Inl TypeError)
       else
         and_then (url_of w action_input) (\<lambda>url.
           case url of
             JStr u \<Rightarrow>
               (case filter (contains ''type='') (py_split ''&'' u) of
                  [] \<Rightarrow> Inl UnboundLocalError
                | param # _ \<Rightarrow> Inr (last (py_split ''='' param) @ ''s''))
           | _ \<Rightarrow> Inl AttributeError))"

definition schema_path :: "string list" where
  "schema_path = [''responses'', ''content'', ''application/json'', ''schema'']"

definition narrow_search_schema ::
  "externals \<Rightarrow> caller_obj \<Rightarrow> string \<Rightarrow> json \<Rightarrow> string \<Rightarrow> nat option \<Rightarrow> reduced_spec result"
where
  \<comment> \<open>the block \<open>if self.scenario == "spotify" and endpoint_name == "GET /search"\<close>:
      \<open>api_doc_for_parser\<close> is the object \<open>endpoint_docs_by_name.get\<close> returned, the
      one the specification holds, and the assignment is to a dictionary inside it. The
      right-hand side is evaluated first. The result is the specification afterwards.\<close>
  "narrow_search_schema w self endpoint_name params action_input doc_ref =
     (if scenario self = ''spotify'' \<and> endpoint_name = ''GET /search'' then
        and_then (search_type_of w params action_input) (\<lambda>search_type.
          let api_doc_for_parser = deref (api_spec self) doc_ref in
          and_then (get_path api_doc_for_parser (schema_path @ [''properties'', search_type])) (\<lambda>kept.
          and_then (set_path api_doc_for_parser schema_path ''properties'' (JObj [(search_type, kept)]))
            (\<lambda>narrowed.
               case doc_ref of
                 None \<Rightarrow> Inl TypeError
               | Some i \<Rightarrow> Inr (store (api_spec self) i narrowed))))
      else Inr (api_spec self))"

definition params_or_data :: "json \<Rightarrow> json \<Rightarrow> json" where
  "params_or_data params request_body =
     JObj [(''params'', if truthy params then params else JStr ''No parameters''),
           (''data'', if truthy request_body then request_body else JStr ''No request body'')]"

definition execute_action ::
  "externals \<Rightarrow> caller_obj \<Rightarrow> string \<Rightarrow> string \<Rightarrow> string \<Rightarrow> string \<Rightarrow> string \<Rightarrow>
   caller_event list \<Rightarrow> step"
where
  \<comment> \<open>\<open>_call\<close> from "Execute the API Call" to its end\<close>
  "execute_action w self plan_text api_url caller_chain_output action action_input evs =
     (let (requests, returned) = get_response w action action_input;
          evs1 = evs @ map HttpRequest requests;
          spec = api_spec self
      in case and_then returned unpack5 of
           Inl e \<Rightarrow> \<lparr>outcome = Inl e, events = evs1, spec_after = spec\<rparr>
         | Inr (full_response, params, request_body, desc, query) \<Rightarrow>
             (let response = take 7500 full_response in
              case and_then (called_name w action action_input api_url) (\<lambda>called.
                   and_then (first_match (get_matched_endpoint w spec called)) (\<lambda>called_endpoint_name.
                   and_then (first_match (get_matched_endpoint w spec plan_text)) (\<lambda>endpoint_name.
                   and_then (narrow_search_schema w self endpoint_name params action_input
                               (endpoint_docs_by_name spec called_endpoint_name)) (\<lambda>spec'.
                     Inr (called_endpoint_name, spec'))))) of
                Inl e \<Rightarrow> \<lparr>outcome = Inl e, events = evs1, spec_after = spec\<rparr>
              | Inr (called_endpoint_name, spec') \<Rightarrow>
                  (let api_path = api_url @ last (py_split '' '' called_endpoint_name);
                       api_doc_for_parser = deref spec' (endpoint_docs_by_name spec called_endpoint_name);
                       api_param = params_or_data params request_body;
                       evs2 = evs1 @ [ParserInvoke api_path api_doc_for_parser query desc api_param response]
                   in case parser_class w api_path api_doc_for_parser query desc api_param response of
                        Inl e \<Rightarrow> \<lparr>outcome = Inl e, events = evs2, spec_after = spec'\<rparr>
                      | Inr parsing_res \<Rightarrow>
                          \<lparr>outcome = Inr (caller_chain_output @ [newline] @ ''Observation: '' @ parsing_res),
                           events = evs2, spec_after = spec'\<rparr>)))"

definition background_of :: "string option \<Rightarrow> string" where
  \<comment> \<open>\<open>inputs.get("background", "")\<close>\<close>
  "background_of b = (case b of None \<Rightarrow> [] | Some t \<Rightarrow> t)"

definition caller_call :: "externals \<Rightarrow> caller_obj \<Rightarrow> string \<Rightarrow> string option \<Rightarrow> step" where
  \<comment> \<open>\<open>Caller._call(inputs)\<close>, given \<open>inputs["api_plan"]\<close> and the background of
      \<open>inputs\<close>, if any\<close>
  "caller_call w self plan_text background_opt =
     (let spec = api_spec self in
      case prepare_api_docs w self plan_text of
        Inl e \<Rightarrow> \<lparr>outcome = Inl e, events = [], spec_after = spec\<rparr>
      | Inr (api_doc_for_caller, api_url) \<Rightarrow>
          (let background_text = background_of background_opt;
               evs = [LlmInvoke api_url api_doc_for_caller plan_text background_text]
           in case llm w api_url api_doc_for_caller plan_text background_text of
                Inl e \<Rightarrow> \<lparr>outcome = Inl e, events = evs, spec_after = spec\<rparr>
              | Inr caller_chain_output \<Rightarrow>
                  (case get_action_and_input caller_chain_output of
                     Inl e \<Rightarrow> \<lparr>outcome = Inl e, events = evs, spec_after = spec\<rparr>
                   | Inr (action, action_input) \<Rightarrow>
                       if action = ''DONE'' then
                         \<lparr>outcome = Inr action_input, events = evs, spec_after = spec\<rparr>
                       else
                         execute_action w self plan_text api_url caller_chain_output
                           action action_input evs)))"

section \<open>The orchestrator: \<open>model/rest_gpt.py\<close>\<close>

text \<open>
  The planner, the selector and the Caller are objects the orchestrator invokes; the
  planner and the selector are not part of the sources at hand, and all three end in a
  text-completion service. They are parameters of the model: each returns a text or
  raises. The selector and the Caller take, besides their inputs, the value of the loop
  counter at the invocation, so that two invocations with equal inputs may answer
  differently. \<open>elapsed\<close> is the reading \<open>time.time() - start_time\<close> taken at the
  end of the iteration with the given counter value; times are real numbers.
\<close>

record collaborators =
  planner :: "string \<Rightarrow> (string \<times> string) list \<Rightarrow> string result"
  api_selector :: "int \<Rightarrow> string \<Rightarrow> string \<Rightarrow> string result"
  caller :: "int \<Rightarrow> string \<Rightarrow> string \<Rightarrow> string result"
  elapsed :: "int \<Rightarrow> real"

record rest_gpt =
  max_iterations :: "int option"
  max_execution_time :: "real option"

text \<open>
  The run state of \<open>RestGPT._call\<close>: its local variables, and a trace of what the
  run did, in order (the trace is not in the source; it records each invocation of a
  collaborator with its inputs and each evaluation of \<open>_should_end\<close>).
\<close>

datatype event =
    PlannerInvoke string "(string \<times> string) list"
  | SelectorInvoke string string
  | CallerInvoke string string
  | ShouldEnd string

record run_state =
  plan :: string
  planner_history :: "(string \<times> string) list"
  api_selector_history :: "(string \<times> string \<times> string) list"
  iterations :: int
  time_elapsed :: real
  trace :: "event list"

definition should_continue :: "rest_gpt \<Rightarrow> int \<Rightarrow> real \<Rightarrow> bool" where
  "should_continue self its t =
     (let has_remaining_iterations =
            (case max_iterations self of None \<Rightarrow> True | Some m \<Rightarrow> its < m);
          has_remaining_time =
            (case max_execution_time self of None \<Rightarrow> True | Some m \<Rightarrow> t < m)
      in has_remaining_iterations \<and> has_remaining_time)"

fun join_lines :: "string list \<Rightarrow> string" where
  \<comment> \<open>\<open>"\n".join(xs)\<close>\<close>
  "join_lines [] = []"
| "join_lines [x] = x"
| "join_lines (x # y # ys) = x @ [newline] @ join_lines (y # ys)"

definition get_api_selector_background :: "(string \<times> string) list \<Rightarrow> string" where
  "get_api_selector_background history =
     (if length history = 0 then ''No background''
      else join_lines (map snd history))"

definition should_end :: "string \<Rightarrow> bool" where
  "should_end p = contains ''Final Answer'' p"

definition no_api_call_needed :: "string \<Rightarrow> string option" where
  \<comment> \<open>\<open>re.match(r"No API call needed.(.*)", api_plan)\<close>: the literal at the start, one
      character that is not a newline, then group 1, the rest of that line\<close>
  "no_api_call_needed api_plan =
     (if starts_with ''No API call needed'' api_plan then
        (case drop (length ''No API call needed'') api_plan of
           [] \<Rightarrow> None
         | c # rest \<Rightarrow> if c = newline then None else Some (takeWhile (\<lambda>d. d \<noteq> newline) rest))
      else None)"

datatype control = Continue | Break | Raise py_exception

definition log :: "event \<Rightarrow> run_state \<Rightarrow> run_state" where
  "log e st = st\<lparr>trace := trace st @ [e]\<rparr>"

definition record_result :: "string \<Rightarrow> string \<Rightarrow> run_state \<Rightarrow> run_state" where
  \<comment> \<open>the two \<open>append\<close> calls under "Log Execution Result"\<close>
  "record_result api_plan execution_res st =
     st\<lparr>planner_history := planner_history st @ [(plan st, execution_res)],
        api_selector_history := api_selector_history st @ [(plan st, api_plan, execution_res)]\<rparr>"

definition replan :: "collaborators \<Rightarrow> string \<Rightarrow> run_state \<Rightarrow> run_state \<times> control" where
  \<comment> \<open>the planner invocation that ends an iteration, the test of its plan, and the
      update of the counters\<close>
  "replan env query st =
     (let st1 = log (PlannerInvoke query (planner_history st)) st in
      case planner env query (planner_history st) of
        Inl e \<Rightarrow> (st1, Raise e)
      | Inr p \<Rightarrow>
          (let st2 = log (ShouldEnd p) (st1\<lparr>plan := p\<rparr>) in
           if should_end p then (st2, Break)
           else (st2\<lparr>iterations := iterations st2 + 1,
                    time_elapsed := elapsed env (iterations st2)\<rparr>, Continue)))"

definition iteration :: "collaborators \<Rightarrow> string \<Rightarrow> string \<Rightarrow> run_state \<Rightarrow> run_state \<times> control" where
  \<comment> \<open>the body of the \<open>while\<close> loop\<close>
  "iteration env query background st =
     (let st1 = log (SelectorInvoke (plan st) background) st in
      case api_selector env (iterations st) (plan st) background of
        Inl e \<Rightarrow> (st1, Raise e)
      | Inr api_plan \<Rightarrow>
          (case no_api_call_needed api_plan of
             None \<Rightarrow>
               (let st2 = log (CallerInvoke api_plan background) st1 in
                case caller env (iterations st) api_plan background of
                  Inl e \<Rightarrow> (st2, Raise e)
                | Inr execution_res \<Rightarrow> replan env query (record_result api_plan execution_res st2))
           | Some execution_res \<Rightarrow> replan env query (record_result api_plan execution_res st1)))"

text \<open>
  The \<open>while\<close> loop. Nothing bounds it when both budgets are absent, so it runs on
  fuel: \<open>None\<close> in the second component says the fuel ran out before the loop ended.
  Otherwise the second component is what \<open>_call\<close> returns (the value under
  \<open>"result"\<close>) or raises.
\<close>

fun while_loop ::
  "nat \<Rightarrow> rest_gpt \<Rightarrow> collaborators \<Rightarrow> string \<Rightarrow> string \<Rightarrow> run_state \<Rightarrow> run_state \<times> string result option"
where
  "while_loop 0 self env query background st =
     (if should_continue self (iterations st) (time_elapsed st) then (st, None)
      else (st, Some (Inr (plan st))))"
| "while_loop (Suc fuel) self env query background st =
     (if should_continue self (iterations st) (time_elapsed st) then
        (case iteration env query background st of
           (st', Raise e) \<Rightarrow> (st', Some (Inl e))
         | (st', Break) \<Rightarrow> (st', Some (Inr (plan st')))
         | (st', Continue) \<Rightarrow> while_loop fuel self env query background st')
      else (st, Some (Inr (plan st))))"

definition initial_state :: run_state where
  "initial_state =
     \<lparr>plan = [], planner_history = [], api_selector_history = [], iterations = 0,
      time_elapsed = 0, trace = []\<rparr>"

definition rest_gpt_call ::
  "nat \<Rightarrow> rest_gpt \<Rightarrow> collaborators \<Rightarrow> string \<Rightarrow> run_state \<times> string result option"
where
  "rest_gpt_call fuel self env query =
     (let st0 = log (PlannerInvoke query (planner_history initial_state)) initial_state in
      case planner env query (planner_history initial_state) of
        Inl e \<Rightarrow> (st0, Some (Inl e))
      | Inr p \<Rightarrow>
          while_loop fuel self env query
            (get_api_selector_background (planner_history initial_state)) (st0\<lparr>plan := p\<rparr>))"

section \<open>Properties of the orchestrator, stated on its trace\<close>

text \<open>The histories given to the planner, in the order of its invocations.\<close>

fun planner_inputs :: "event list \<Rightarrow> (string \<times> string) list list" where
  "planner_inputs [] = []"
| "planner_inputs (PlannerInvoke q h # es) = h # planner_inputs es"
| "planner_inputs (e # es) = planner_inputs es"

text \<open>Each list is the one before it with one element added at the end.\<close>

fun grows_by_one :: "'a list list \<Rightarrow> bool" where
  "grows_by_one (h1 # h2 # hs) = (h2 \<noteq> [] \<and> butlast h2 = h1 \<and> grows_by_one (h2 # hs))"
| "grows_by_one hs = True"

text \<open>
  The planner saw the empty history first, then histories that grow by one entry at the
  end; the last one it saw is the history of the state.
\<close>

definition history_inv :: "run_state \<Rightarrow> bool" where
  "history_inv st =
     (let hs = planner_inputs (trace st)
      in hs \<noteq> [] \<and> hd hs = [] \<and> grows_by_one hs \<and> last hs = planner_history st)"

text \<open>
  An entry \<open>(plan, api_plan, result)\<close> of \<open>api_selector_history\<close> is what iteration
  \<open>i\<close> produced: the selector answered \<open>api_plan\<close> to the plan, and the result is
  the group of its refusal or, without a refusal, what the Caller returned.
\<close>

definition entry_ok :: "collaborators \<Rightarrow> string \<Rightarrow> int \<Rightarrow> string \<times> string \<times> string \<Rightarrow> bool" where
  "entry_ok env background i e =
     (case e of (p, api_plan, res) \<Rightarrow>
        api_selector env i p background = Inr api_plan \<and>
        (case no_api_call_needed api_plan of
           Some g \<Rightarrow> res = g
         | None \<Rightarrow> caller env i api_plan background = Inr res))"

text \<open>
  The history of the planner is the history of the selector without the middle
  components, and its entry with index \<open>i\<close> is what iteration \<open>i\<close> produced.
\<close>

definition results_recorded :: "collaborators \<Rightarrow> string \<Rightarrow> run_state \<Rightarrow> bool" where
  "results_recorded env background st =
     (planner_history st = map (\<lambda>(p, api_plan, res). (p, res)) (api_selector_history st) \<and>
      list_all (\<lambda>(i, e). entry_ok env background (int i) e) (enumerate 0 (api_selector_history st)))"

text \<open>
  Every evaluation of \<open>_should_end\<close> stands right after a planner invocation on a
  history that is not empty, and tests the plan that invocation returned.
\<close>

fun end_checks_ok :: "collaborators \<Rightarrow> event list \<Rightarrow> bool" where
  "end_checks_ok env (PlannerInvoke q h # ShouldEnd p # es) =
     (h \<noteq> [] \<and> planner env q h = Inr p \<and> end_checks_ok env es)"
| "end_checks_ok env (ShouldEnd p # es) = False"
| "end_checks_ok env (e # es) = end_checks_ok env es"
| "end_checks_ok env [] = True"

text \<open>
  The invariants of the loop: \<open>loop_post\<close> holds of every state the loop leaves,
  \<open>at_head\<close> where the loop condition is evaluated, and \<open>recorded\<close> between the
  two \<open>append\<close> calls and the planner invocation that follows them.
\<close>

definition loop_post :: "collaborators \<Rightarrow> string \<Rightarrow> run_state \<Rightarrow> bool" where
  "loop_post env background st =
     (history_inv st \<and> results_recorded env background st \<and> end_checks_ok env (trace st))"

definition at_head :: "collaborators \<Rightarrow> string \<Rightarrow> run_state \<Rightarrow> bool" where
  "at_head env background st =
     (loop_post env background st \<and> iterations st = int (length (planner_history st)))"

definition recorded :: "collaborators \<Rightarrow> string \<Rightarrow> run_state \<Rightarrow> bool" where
  "recorded env background st =
     (planner_inputs (trace st) \<noteq> [] \<and> hd (planner_inputs (trace st)) = [] \<and> grows_by_one (planner_inputs (trace st)) \<and>
      planner_history st \<noteq> [] \<and> butlast (planner_history st) = last (planner_inputs (trace st)) \<and>
      results_recorded env background st \<and> end_checks_ok env (trace st) \<and>
      iterations st + 1 = int (length (planner_history st)))"

text \<open>
  The events of a planner invocation on a history: the invocation, then the test of the
  plan it returned, if it returned one.
\<close>

definition replanned :: "collaborators \<Rightarrow> string \<Rightarrow> (string \<times> string) list \<Rightarrow> event list" where
  "replanned env query history =
     PlannerInvoke query history #
     (case planner env query history of Inl e \<Rightarrow> [] | Inr p \<Rightarrow> [ShouldEnd p])"

text \<open>
  The events of a whole first iteration on the plan \<open>p\<close>, for the collaborators at
  hand: the selector invocation, the Caller invocation unless the selector refused (or
  raised), and, when there is a result, the planner invocation on the history that holds
  that result, followed by the test of the new plan.
\<close>

definition full_iteration :: "collaborators \<Rightarrow> string \<Rightarrow> string \<Rightarrow> string \<Rightarrow> event list" where
  "full_iteration env query background p =
     SelectorInvoke p background #
     (case api_selector env 0 p background of
        Inl e \<Rightarrow> []
      | Inr api_plan \<Rightarrow>
          (case no_api_call_needed api_plan of
             Some g \<Rightarrow> replanned env query [(p, g)]
           | None \<Rightarrow>
               CallerInvoke api_plan background #
               (case caller env 0 api_plan background of
                  Inl e \<Rightarrow> []
                | Inr res \<Rightarrow> replanned env query [(p, res)])))"

subsection \<open>Concrete collaborators\<close>

text \<open>
  A planner whose first plan already holds the completion phrase, a selector that never
  refuses, and a budget of 15 iterations.
\<close>

definition demo_env :: collaborators where
  "demo_env =
     \<lparr>planner = (\<lambda>q h. if h = [] then Inr ''Final Answer: none yet'' else Inr ''Final Answer: 42''),
      api_selector = (\<lambda>i p b. Inr ''GET /movie/top_rated''),
      caller = (\<lambda>i a b. Inr ''Observation: 42''),
      elapsed = (\<lambda>i. 1)\<rparr>"

definition demo_self :: rest_gpt where
  "demo_self = \<lparr>max_iterations = Some 15, max_execution_time = None\<rparr>"

section \<open>Properties of the Caller, stated on its trace\<close>

fun http_requests :: "caller_event list \<Rightarrow> http_request list" where
  "http_requests [] = []"
| "http_requests (HttpRequest r # es) = r # http_requests es"
| "http_requests (e # es) = http_requests es"



subsection \<open>Concrete inputs\<close>

text \<open>
  A small specification with two endpoints, a completion that asks for a GET, and
  collaborators given by tables: the matcher answers from the text alone, the tokenizer
  has one token per character, \<open>json.loads\<close> knows the two action inputs used below.
\<close>

definition quoted :: "string \<Rightarrow> string" where
  "quoted s = CHR 0x22 # s @ [CHR 0x22]"

definition demo_action_input :: string where
  "demo_action_input = ''{'' @ quoted ''url'' @ '': '' @ quoted ''http://h/a'' @ ''}''"

definition demo_completion :: string where
  "demo_completion = ''Operation: GET'' @ [newline] @ ''Input: '' @ demo_action_input"

definition search_action_input :: string where
  "search_action_input = ''{'' @ quoted ''url'' @ '': '' @ quoted ''http://h/search?q=x&type=track'' @ ''}''"

definition search_completion :: string where
  "search_completion = ''Operation: GET'' @ [newline] @ ''Input: '' @ search_action_input"

definition demo_loads :: "string \<Rightarrow> json option" where
  "demo_loads s =
     (if s = demo_action_input then Some (JObj [(''url'', JStr ''http://h/a'')])
      else if s = search_action_input then Some (JObj [(''url'', JStr ''http://h/search?q=x&type=track'')])
      else None)"

definition demo_externals :: "(string \<Rightarrow> string list option) \<Rightarrow> string \<Rightarrow> http_response \<Rightarrow> externals" where
  "demo_externals matcher completion response =
     \<lparr>get_matched_endpoint = (\<lambda>spec text. matcher text),
      yaml_dump = (\<lambda>doc. ''yaml''),
      encode = map of_char,
      decode = map char_of,
      llm = (\<lambda>api_url docs plan_text background_text. Inr completion),
      json_loads = demo_loads,
      requests_wrapper = (\<lambda>req. Inr response),
      parser_class = (\<lambda>api_path api_doc query desc api_param response_text. Inr ''parsed'')\<rparr>"

definition demo_spec :: reduced_spec where
  "demo_spec =
     \<lparr>servers = [[(''url'', ''http://h'')]],
      endpoints = [(''GET /a'', None, JObj [(''description'', JStr ''docs of a'')]),
                   (''GET /b'', None, JObj [(''description'', JStr ''docs of b'')])]\<rparr>"

definition demo_caller :: caller_obj where
  "demo_caller = \<lparr>api_spec = demo_spec, scenario = ''tmdb'', with_response = False\<rparr>"

definition search_doc :: "(string \<times> json) list \<Rightarrow> json" where
  "search_doc properties =
     JObj [(''responses'', JObj [(''content'', JObj [(''application/json'',
       JObj [(''schema'', JObj [(''properties'', JObj properties)])])])])]"

definition spotify_spec :: reduced_spec where
  "spotify_spec =
     \<lparr>servers = [[(''url'', ''http://h'')]],
      endpoints = [(''GET /search'', None,
                    search_doc [(''tracks'', JStr ''track objects''), (''artists'', JStr ''artist objects'')])]\<rparr>"

definition spotify_caller :: caller_obj where
  "spotify_caller = \<lparr>api_spec = spotify_spec, scenario = ''spotify'', with_response = False\<rparr>"









section \<open>The orchestrator loop\<close>

lemma planner_inputs_append: "planner_inputs (xs @ ys) = planner_inputs xs @ planner_inputs ys"
  by (induction xs rule: planner_inputs.induct) auto

lemma grows_by_one_snoc:
  "grows_by_one (hs @ [h]) = (grows_by_one hs \<and> (hs = [] \<or> (h \<noteq> [] \<and> butlast h = last hs)))"
  by (induction hs rule: grows_by_one.induct) auto

text \<open>
  Claim C8. With \<open>max_iterations = 0\<close> the run returns what the first planner
  invocation gave (its text, or its exception), whatever the fuel, and its trace holds
  that one planner invocation and nothing else: no selector and no Caller invocation.
\<close>

theorem budget_zero:
  "snd (rest_gpt_call fuel (self\<lparr>max_iterations := Some 0\<rparr>) env query) = Some (planner env query [])
   \<and> trace (fst (rest_gpt_call fuel (self\<lparr>max_iterations := Some 0\<rparr>) env query)) = [PlannerInvoke query []]"
  by (cases fuel; cases "planner env query []")
     (simp_all add: rest_gpt_call_def initial_state_def log_def should_continue_def)

lemma end_checks_ok_snoc:
  "\<not> (\<exists>p. e = ShouldEnd p) \<Longrightarrow> end_checks_ok env (t @ [e]) = end_checks_ok env t"
  by (induction env t rule: end_checks_ok.induct) (auto; cases e; auto)+

lemma end_checks_ok_snoc2:
  "end_checks_ok env (t @ [PlannerInvoke q h, ShouldEnd p]) =
     (end_checks_ok env t \<and> h \<noteq> [] \<and> planner env q h = Inr p)"
  by (induction env t rule: end_checks_ok.induct) auto

lemma end_checks_ok_quiet:
  "\<forall>e \<in> set es. \<not> (\<exists>p. e = ShouldEnd p) \<Longrightarrow> end_checks_ok env (t @ es) = end_checks_ok env t"
proof (induction es rule: rev_induct)
  case Nil
  then show ?case by simp
next
  case (snoc e es)
  have "end_checks_ok env ((t @ es) @ [e]) = end_checks_ok env (t @ es)"
    using snoc.prems by (intro end_checks_ok_snoc) simp
  with snoc show ?case by simp
qed

lemma replan_step:
  assumes "recorded env background st" "replan env query st = (st', c)"
  shows "loop_post env background st'"
    and "c = Continue \<Longrightarrow> at_head env background st'"
    and "c = Break \<Longrightarrow> should_end (plan st') \<and> planner_history st' \<noteq> [] \<and>
           planner env query (planner_history st') = Inr (plan st') \<and>
           iterations st' = iterations st \<and> time_elapsed st' = time_elapsed st"
  using assms
  by (auto simp: replan_def recorded_def loop_post_def at_head_def history_inv_def results_recorded_def
        log_def Let_def planner_inputs_append grows_by_one_snoc end_checks_ok_snoc end_checks_ok_snoc2
      split: sum.splits if_splits)

lemma record_step:
  assumes "at_head env background st"
    "api_selector env (iterations st) (plan st) background = Inr api_plan"
    "case no_api_call_needed api_plan of Some g \<Rightarrow> res = g
     | None \<Rightarrow> caller env (iterations st) api_plan background = Inr res"
    "trace st1 = trace st @ es" "planner_inputs es = []" "\<forall>e \<in> set es. \<not> (\<exists>p. e = ShouldEnd p)"
    "end_checks_ok env (trace st1)"
    "plan st1 = plan st" "planner_history st1 = planner_history st"
    "api_selector_history st1 = api_selector_history st" "iterations st1 = iterations st"
  shows "recorded env background (record_result api_plan res st1)"
  using assms
  by (auto simp: recorded_def at_head_def loop_post_def history_inv_def results_recorded_def
        record_result_def Let_def planner_inputs_append enumerate_append_eq entry_ok_def
      split: option.splits)

lemma iteration_step:
  assumes "at_head env background st" "iteration env query background st = (st', c)"
  shows "loop_post env background st' \<and>
         (c = Continue \<longrightarrow> at_head env background st') \<and>
         (c = Break \<longrightarrow> should_end (plan st') \<and> planner_history st' \<noteq> [] \<and>
           planner env query (planner_history st') = Inr (plan st') \<and>
           iterations st' = iterations st \<and> time_elapsed st' = time_elapsed st)"
proof (cases "api_selector env (iterations st) (plan st) background")
  case (Inl e)
  with assms show ?thesis
    by (auto simp: iteration_def Let_def log_def at_head_def loop_post_def history_inv_def
          results_recorded_def planner_inputs_append end_checks_ok_snoc)
next
  case (Inr api_plan)
  let ?st1 = "log (SelectorInvoke (plan st) background) st"
  let ?st2 = "log (CallerInvoke api_plan background) ?st1"
  show ?thesis
  proof (cases "no_api_call_needed api_plan")
    case (Some g)
    have rec: "recorded env background (record_result api_plan g ?st1)"
      using assms(1) Inr Some
      by (intro record_step[where st = st and es = "[SelectorInvoke (plan st) background]"])
         (auto simp: log_def end_checks_ok_snoc at_head_def loop_post_def)
    have "replan env query (record_result api_plan g ?st1) = (st', c)"
      using assms(2) Inr Some by (simp add: iteration_def Let_def)
    from replan_step[OF rec this] show ?thesis
      by (simp add: record_result_def log_def)
  next
    case None
    show ?thesis
    proof (cases "caller env (iterations st) api_plan background")
      case (Inl e)
      with assms Inr None show ?thesis
        by (auto simp: iteration_def Let_def log_def at_head_def loop_post_def history_inv_def
              results_recorded_def planner_inputs_append end_checks_ok_quiet)
    next
      case (Inr res)
      have rec: "recorded env background (record_result api_plan res ?st2)"
        using assms(1) \<open>api_selector env (iterations st) (plan st) background = Inr api_plan\<close> None Inr
        by (intro record_step[where st = st and
              es = "[SelectorInvoke (plan st) background, CallerInvoke api_plan background]"])
           (auto simp: log_def end_checks_ok_quiet at_head_def loop_post_def)
      have "replan env query (record_result api_plan res ?st2) = (st', c)"
        using assms(2) \<open>api_selector env (iterations st) (plan st) background = Inr api_plan\<close> None Inr
        by (simp add: iteration_def Let_def)
      from replan_step[OF rec this] show ?thesis
        by (simp add: record_result_def log_def)
    qed
  qed
qed

lemma while_loop_post:
  assumes "at_head env background st" "while_loop fuel self env query background st = (st', r)"
  shows "loop_post env background st' \<and>
         (\<forall>p. r = Some (Inr p) \<longrightarrow> should_continue self (iterations st') (time_elapsed st') \<longrightarrow>
            should_end p \<and> planner_history st' \<noteq> [] \<and>
            planner env query (planner_history st') = Inr p)"
  using assms
proof (induction fuel arbitrary: st)
  case 0
  then show ?case by (auto simp: at_head_def split: if_splits)
next
  case (Suc fuel)
  show ?case
  proof (cases "should_continue self (iterations st) (time_elapsed st)")
    case False
    with Suc.prems show ?thesis by (auto simp: at_head_def)
  next
    case True
    obtain st1 c where it: "iteration env query background st = (st1, c)"
      by (cases "iteration env query background st")
    note step = iteration_step[OF Suc.prems(1) it]
    show ?thesis
    proof (cases c)
      case Continue
      with Suc.prems(2) True it have "while_loop fuel self env query background st1 = (st', r)"
        by simp
      moreover from step Continue have "at_head env background st1" by simp
      ultimately show ?thesis by (rule Suc.IH[rotated])
    next
      case Break
      with Suc.prems(2) True it have "st' = st1" "r = Some (Inr (plan st1))" by auto
      with step Break show ?thesis by simp
    next
      case (Raise e)
      with Suc.prems(2) True it have "st' = st1" "r = Some (Inl e)" by auto
      with step show ?thesis by simp
    qed
  qed
qed


lemma replan_trace: "replan env query st = (st', c) \<Longrightarrow> \<exists>es. trace st' = trace st @ es"
  by (auto simp: replan_def Let_def log_def split: sum.splits if_splits)

lemma iteration_trace:
  assumes "iteration env query background st = (st', c)"
  shows "\<exists>rest. trace st' = trace st @ SelectorInvoke (plan st) background # rest \<and>
           (\<forall>api_plan. api_selector env (iterations st) (plan st) background = Inr api_plan \<longrightarrow>
              no_api_call_needed api_plan = None \<longrightarrow>
              (\<exists>rest'. rest = CallerInvoke api_plan background # rest'))"
  using assms
  by (auto simp: iteration_def Let_def log_def record_result_def
      split: sum.splits option.splits dest!: replan_trace)

lemma while_loop_trace:
  "while_loop fuel self env query background st = (st', r) \<Longrightarrow> \<exists>es. trace st' = trace st @ es"
proof (induction fuel arbitrary: st)
  case 0
  then show ?case by (auto split: if_splits)
next
  case (Suc fuel)
  show ?case
  proof (cases "should_continue self (iterations st) (time_elapsed st)")
    case False
    with Suc.prems show ?thesis by auto
  next
    case True
    obtain st1 c where it: "iteration env query background st = (st1, c)"
      by (cases "iteration env query background st")
    from iteration_trace[OF it] obtain es1 where es1: "trace st1 = trace st @ es1" by auto
    show ?thesis
    proof (cases c)
      case Continue
      with Suc.prems True it have "while_loop fuel self env query background st1 = (st', r)"
        by simp
      from Suc.IH[OF this] es1 show ?thesis by auto
    next
      case Break
      with Suc.prems True it es1 show ?thesis by auto
    next
      case (Raise e)
      with Suc.prems True it es1 show ?thesis by auto
    qed
  qed
qed

lemma replan_events:
  "replan env query st = (st', c) \<Longrightarrow> trace st' = trace st @ replanned env query (planner_history st)"
  by (auto simp: replan_def replanned_def Let_def log_def split: sum.splits if_splits)

lemma iteration_events:
  assumes "iteration env query background st = (st', c)"
    and "iterations st = 0" and "planner_history st = []"
  shows "trace st' = trace st @ full_iteration env query background (plan st)"
  using assms
  by (auto simp: iteration_def full_iteration_def Let_def log_def record_result_def
      split: sum.splits option.splits dest!: replan_events)

text \<open>
  Claim C10. When the budgets allow the first iteration (and there is fuel for it), the
  trace starts with the first planner invocation followed by the events of a whole
  iteration on the first plan: the selector invocation, the Caller invocation unless the
  selector refused, and the planner invocation on the history that holds the result;
  only then comes the first evaluation of \<open>_should_end\<close>, on the plan that invocation
  returned. This holds whatever the first plan says. In the whole trace, every
  evaluation of \<open>_should_end\<close> stands right after a planner invocation on a history
  that is not empty and tests the plan of that invocation (\<open>end_checks_ok\<close>): the
  plan of the first invocation, on the empty history, is never what is tested.
\<close>

theorem first_plan_not_tested:
  assumes "should_continue self 0 0" and "planner env query [] = Inr p0"
    and "rest_gpt_call (Suc fuel) self env query = (st, r)"
  shows "(\<exists>rest. trace st = PlannerInvoke query [] # full_iteration env query ''No background'' p0 @ rest) \<and>
         end_checks_ok env (trace st)"
proof -
  let ?st0 = "(log (PlannerInvoke query []) initial_state)\<lparr>plan := p0\<rparr>"
  obtain st1 c where it: "iteration env query ''No background'' ?st0 = (st1, c)"
    by (cases "iteration env query ''No background'' ?st0")
  have first: "trace st1 = PlannerInvoke query [] # full_iteration env query ''No background'' p0"
    using iteration_events[OF it] by (simp add: initial_state_def log_def)
  have loop: "while_loop (Suc fuel) self env query ''No background'' ?st0 = (st, r)"
    using assms(2,3)
    by (simp add: rest_gpt_call_def initial_state_def get_api_selector_background_def
          del: while_loop.simps)
  have start: "should_continue self (iterations ?st0) (time_elapsed ?st0)"
    using assms(1) by (simp add: initial_state_def log_def)
  have "\<exists>es. trace st = trace st1 @ es"
  proof (cases c)
    case Continue
    with loop it start have "while_loop fuel self env query ''No background'' st1 = (st, r)"
      by simp
    then show ?thesis by (rule while_loop_trace)
  next
    case Break
    with loop it start show ?thesis by auto
  next
    case (Raise e)
    with loop it start show ?thesis by auto
  qed
  with first have shape:
    "\<exists>rest. trace st = PlannerInvoke query [] # full_iteration env query ''No background'' p0 @ rest"
    by auto
  have head: "at_head env ''No background'' ?st0"
    by (simp add: at_head_def loop_post_def history_inv_def results_recorded_def initial_state_def
          log_def)
  from while_loop_post[OF head loop] have "end_checks_ok env (trace st)"
    by (simp add: loop_post_def)
  with shape show ?thesis ..
qed

lemmas demo_simps = demo_env_def demo_self_def rest_gpt_call_def initial_state_def log_def
  should_continue_def get_api_selector_background_def iteration_def replan_def record_result_def
  no_api_call_needed_def should_end_def starts_with_def newline_def Let_def

theorem budget_zero_witness:
  "snd (rest_gpt_call 2 (demo_self\<lparr>max_iterations := Some 0\<rparr>) demo_env ''q'')
     = Some (Inr ''Final Answer: none yet'')"
  using budget_zero[of 2 demo_self demo_env "''q''"] by (simp add: demo_env_def)

lemma demo_run:
  "rest_gpt_call 2 demo_self demo_env ''q'' =
     (\<lparr>plan = ''Final Answer: 42'',
       planner_history = [(''Final Answer: none yet'', ''Observation: 42'')],
       api_selector_history = [(''Final Answer: none yet'', ''GET /movie/top_rated'', ''Observation: 42'')],
       iterations = 0, time_elapsed = 0,
       trace = [PlannerInvoke ''q'' [], SelectorInvoke ''Final Answer: none yet'' ''No background'',
                CallerInvoke ''GET /movie/top_rated'' ''No background'',
                PlannerInvoke ''q'' [(''Final Answer: none yet'', ''Observation: 42'')],
                ShouldEnd ''Final Answer: 42'']\<rparr>,
      Some (Inr ''Final Answer: 42''))"
  by (simp add: demo_simps eval_nat_numeral)


theorem first_plan_not_tested_witness:
  "should_continue demo_self 0 0 \<and> planner demo_env ''q'' [] = Inr ''Final Answer: none yet'' \<and>
   should_end ''Final Answer: none yet'' \<and>
   full_iteration demo_env ''q'' ''No background'' ''Final Answer: none yet'' =
     [SelectorInvoke ''Final Answer: none yet'' ''No background'',
      CallerInvoke ''GET /movie/top_rated'' ''No background'',
      PlannerInvoke ''q'' [(''Final Answer: none yet'', ''Observation: 42'')],
      ShouldEnd ''Final Answer: 42''] \<and>
   trace (fst (rest_gpt_call (Suc 1) demo_self demo_env ''q'')) =
     [PlannerInvoke ''q'' [], SelectorInvoke ''Final Answer: none yet'' ''No background'',
      CallerInvoke ''GET /movie/top_rated'' ''No background'',
      PlannerInvoke ''q'' [(''Final Answer: none yet'', ''Observation: 42'')],
      ShouldEnd ''Final Answer: 42''] \<and>
   end_checks_ok demo_env (trace (fst (rest_gpt_call (Suc 1) demo_self demo_env ''q'')))"
proof -
  have a: "should_continue demo_self 0 0" by (simp add: demo_self_def should_continue_def)
  have b: "planner demo_env ''q'' [] = Inr ''Final Answer: none yet''" by (simp add: demo_env_def)
  have c: "rest_gpt_call (Suc 1) demo_self demo_env ''q'' =
    (fst (rest_gpt_call (Suc 1) demo_self demo_env ''q''), snd (rest_gpt_call (Suc 1) demo_self demo_env ''q''))"
    by simp
  have f: "should_end ''Final Answer: none yet''" by (simp add: should_end_def starts_with_def)
  have g: "full_iteration demo_env ''q'' ''No background'' ''Final Answer: none yet'' =
     [SelectorInvoke ''Final Answer: none yet'' ''No background'',
      CallerInvoke ''GET /movie/top_rated'' ''No background'',
      PlannerInvoke ''q'' [(''Final Answer: none yet'', ''Observation: 42'')],
      ShouldEnd ''Final Answer: 42'']"
    by (simp add: full_iteration_def replanned_def demo_env_def no_api_call_needed_def starts_with_def)
  have t: "trace (fst (rest_gpt_call (Suc 1) demo_self demo_env ''q'')) =
     [PlannerInvoke ''q'' [], SelectorInvoke ''Final Answer: none yet'' ''No background'',
      CallerInvoke ''GET /movie/top_rated'' ''No background'',
      PlannerInvoke ''q'' [(''Final Answer: none yet'', ''Observation: 42'')],
      ShouldEnd ''Final Answer: 42'']"
    using demo_run by (simp add: numeral_2_eq_2)
  from first_plan_not_tested[OF a b c] a b f g t show ?thesis by simp
qed

section \<open>The Caller\<close>

declare py_split.simps [simp del] replace_all.simps [simp del]

lemma contains_iff_find: "contains sub s \<longleftrightarrow> str_find sub s \<noteq> None"
  by (induction s) auto

lemma str_find_split:
  "str_find sub s = Some i \<Longrightarrow> s = take i s @ sub @ drop (i + length sub) s"
proof (induction s arbitrary: i)
  case Nil
  then show ?case by (simp split: if_splits)
next
  case (Cons c cs)
  show ?case
  proof (cases "starts_with sub (c # cs)")
    case True
    with Cons.prems have "i = 0" by simp
    moreover from True have "take (length sub) (c # cs) = sub" by (simp add: starts_with_def)
    ultimately show ?thesis by (metis append_Nil append_take_drop_id add_0 take0)
  next
    case False
    with Cons.prems obtain j where j: "str_find sub cs = Some j" "i = Suc j" by auto
    from Cons.IH[OF j(1)] j(2) show ?thesis by simp
  qed
qed

lemma py_split_not_Nil: "py_split sep s \<noteq> []"
  by (subst py_split.simps) (simp split: option.splits)

lemma py_split_last_clean:
  "sep \<noteq> [] \<Longrightarrow> \<not> contains sep (last (py_split sep s))"
proof (induction sep s rule: py_split.induct)
  case (1 sep s)
  show ?case
  proof (cases "str_find sep s")
    case None
    with 1 show ?thesis by (subst py_split.simps) (simp add: contains_iff_find)
  next
    case (Some i)
    with 1 have "\<not> contains sep (last (py_split sep (drop (i + length sep) s)))" by simp
    with Some 1(2) show ?thesis
      by (subst py_split.simps) (simp add: py_split_not_Nil)
  qed
qed

lemma py_split_last_after:
  "sep \<noteq> [] \<Longrightarrow> contains sep s \<Longrightarrow> \<exists>pre. s = pre @ sep @ last (py_split sep s)"
proof (induction sep s rule: py_split.induct)
  case (1 sep s)
  from 1(3) obtain i where i: "str_find sep s = Some i" by (auto simp: contains_iff_find)
  let ?rest = "drop (i + length sep) s"
  have s: "s = take i s @ sep @ ?rest" by (rule str_find_split[OF i])
  have last: "last (py_split sep s) = last (py_split sep ?rest)"
    using i 1(2) by (subst py_split.simps) (simp add: py_split_not_Nil)
  show ?case
  proof (cases "contains sep ?rest")
    case True
    with 1(1)[of i] 1(2) i obtain pre where "?rest = pre @ sep @ last (py_split sep ?rest)" by auto
    with s last have "s = (take i s @ sep @ pre) @ sep @ last (py_split sep s)" by simp
    then show ?thesis by blast
  next
    case False
    then have "py_split sep ?rest = [?rest]"
      by (subst py_split.simps) (simp add: contains_iff_find)
    with s last show ?thesis by auto
  qed
qed

lemma str_find_first:
  "c \<notin> set pre \<Longrightarrow> str_find (c # sub) (pre @ c # sub @ post) = Some (length pre)"
proof (induction pre)
  case Nil
  then show ?case by (simp add: starts_with_def)
next
  case (Cons a pre)
  then have "\<not> starts_with (c # sub) ((a # pre) @ c # sub @ post)"
    by (auto simp: starts_with_def)
  with Cons show ?case by simp
qed

lemma dropWhile_spaces:
  "\<forall>c \<in> set ws. is_space c \<Longrightarrow> tok \<noteq> [] \<Longrightarrow> \<not> is_space (hd tok) \<Longrightarrow>
   dropWhile is_space (ws @ tok @ r) = tok @ r"
  by (cases tok) (auto simp: dropWhile_append)

lemma strip_where_clean:
  "tok \<noteq> [] \<Longrightarrow> \<not> P (hd tok) \<Longrightarrow> \<not> P (last tok) \<Longrightarrow> strip_where P tok = tok"
proof -
  assume a: "tok \<noteq> []" "\<not> P (hd tok)" "\<not> P (last tok)"
  then have "dropWhile P tok = tok" by (cases tok) auto
  moreover from a have "dropWhile P (rev tok) = rev tok"
    by (cases "rev tok") (auto simp: last_rev hd_rev)
  ultimately show ?thesis by (simp add: strip_where_def)
qed

text \<open>
  Where the pattern finds the pair, for a text of the usual shape: \<open>Operation:\<close>, white
  space, a token without white space (and without the letter that starts \<open>Input:\<close>),
  newlines, \<open>Input:\<close> and the rest. Group 1 is the token, and stripping leaves it as
  it is.
\<close>

lemma pair_found:
  assumes "CHR ''O'' \<notin> set pre" and "\<forall>c \<in> set ws. is_space c"
    and "tok \<noteq> []" and "\<forall>c \<in> set tok. \<not> is_space c \<and> c \<noteq> CHR ''I''"
    and "\<forall>c \<in> set nls. c = newline"
  shows "search_operation_input (pre @ ''Operation:'' @ ws @ tok @ nls @ ''Input:'' @ rest)
           = Some (tok, dropWhile is_space rest)"
    and "strip tok = tok"
proof -
  from assms(3,4) have hd: "\<not> is_space (hd tok)" and last: "\<not> is_space (last tok)"
    by auto
  have nl: "is_space newline" by (simp add: is_space_def newline_def)
  have find1: "str_find ''Operation:'' (pre @ ''Operation:'' @ ws @ tok @ nls @ ''Input:'' @ rest)
      = Some (length pre)"
    using str_find_first[OF assms(1), of "''peration:''" "ws @ tok @ nls @ ''Input:'' @ rest"] by simp
  have after: "dropWhile is_space (drop (length pre + length ''Operation:'')
      (pre @ ''Operation:'' @ ws @ tok @ nls @ ''Input:'' @ rest)) = tok @ nls @ ''Input:'' @ rest"
    using dropWhile_spaces[OF assms(2,3) hd] by simp
  have "CHR ''I'' \<notin> set (tok @ nls)" using assms(4,5) by (auto simp: newline_def)
  from str_find_first[OF this, of "''nput:''" rest]
  have find2: "str_find ''Input:'' (tok @ nls @ ''Input:'' @ rest) = Some (length tok + length nls)"
    by simp
  have "dropWhile (\<lambda>c. c = newline) (rev (tok @ nls)) = rev tok"
  proof -
    have "dropWhile (\<lambda>c. c = newline) (rev nls @ rev tok) = dropWhile (\<lambda>c. c = newline) (rev tok)"
      using assms(5) by (simp add: dropWhile_append)
    also have "\<dots> = rev tok"
      using assms(3) last nl by (cases "rev tok") (auto simp: last_rev hd_rev)
    finally show ?thesis by simp
  qed
  then have group1: "rev (dropWhile (\<lambda>c. c = newline) (rev (take (length tok + length nls)
      (tok @ nls @ ''Input:'' @ rest)))) = tok"
    by simp
  show "search_operation_input (pre @ ''Operation:'' @ ws @ tok @ nls @ ''Input:'' @ rest)
           = Some (tok, dropWhile is_space rest)"
    unfolding search_operation_input_def find1 option.case Let_def after find2 group1
    by simp
  show "strip tok = tok"
    unfolding strip_def by (rule strip_where_clean[OF assms(3) hd last])
qed

lemmas parse_simps = get_action_and_input_def search_operation_input_def starts_with_def strip_def
  strip_chars_def strip_where_def is_space_def newline_def index_or_minus_one_def py_slice_def Let_def

text \<open>
  An \<open>Operation:\<close>/\<open>Input:\<close> pair whose operation is PATCH is refused: the list the
  parser tests against holds four verbs, and PATCH is not one of them.
\<close>

theorem patch_rejected:
  "get_action_and_input (''Operation: PATCH'' @ [newline] @ ''Input: {}'') = Inl NotImplementedError"
  by (simp add: parse_simps)

lemma put_accepted:
  "get_action_and_input (''Operation: PUT'' @ [newline] @ ''Input: ```{}```'') = Inr (''PUT'', ''{}'')"
  by (simp add: parse_simps)

text \<open>
  Claim C3, as the code has it. For a completion without the completion marker in which
  the pattern finds an \<open>Operation:\<close>/\<open>Input:\<close> pair, the operation token is the
  stripped group 1; the parser returns an action with that token exactly when the token
  is one of the four verbs GET, POST, DELETE, PUT, and raises \<open>NotImplementedError\<close>
  for every other token, PATCH among them.
\<close>

theorem operation_gate:
  assumes "\<not> contains ''Execution Result:'' out"
    and "search_operation_input out = Some (group1, group2)"
  shows "(strip group1 \<in> {''GET'', ''POST'', ''DELETE'', ''PUT''} \<longrightarrow>
            (\<exists>action_input. get_action_and_input out = Inr (strip group1, action_input))) \<and>
         (strip group1 \<notin> {''GET'', ''POST'', ''DELETE'', ''PUT''} \<longrightarrow>
            get_action_and_input out = Inl NotImplementedError)"
  using assms by (auto simp: get_action_and_input_def Let_def)

lemma done_parsed:
  assumes "contains ''Execution Result:'' out"
  shows "get_action_and_input out = Inr (''DONE'', strip (last (py_split ''Execution Result:'' out)))"
  using assms by (simp add: get_action_and_input_def)

lemma caller_call_done:
  assumes "prepare_api_docs w self plan_text = Inr (docs, api_url)"
    and "llm w api_url docs plan_text (background_of b) = Inr out"
    and "get_action_and_input out = Inr (''DONE'', text)"
  shows "caller_call w self plan_text b =
           \<lparr>outcome = Inr text, events = [LlmInvoke api_url docs plan_text (background_of b)],
            spec_after = api_spec self\<rparr>"
  using assms by (simp add: caller_call_def Let_def)

text \<open>
  Claim C6, as the code has it. A completion that contains the marker
  \<open>Execution Result:\<close> splits as \<open>pre @ marker @ post\<close> where \<open>post\<close> holds no
  further marker (it is the text after the last marker); the parser returns the done
  signal with \<open>post\<close> stripped of the white space at both ends, whatever \<open>pre\<close>
  holds. When the documentation was prepared and the completion service returned such
  a completion, the step returns that text, issues no HTTP request and leaves the
  specification as it was.
\<close>

theorem done_signal:
  assumes "contains ''Execution Result:'' out"
  shows "\<exists>pre post. out = pre @ ''Execution Result:'' @ post \<and>
           \<not> contains ''Execution Result:'' post \<and>
           get_action_and_input out = Inr (''DONE'', strip post) \<and>
           (\<forall>w self plan_text b docs api_url.
              prepare_api_docs w self plan_text = Inr (docs, api_url) \<longrightarrow>
              llm w api_url docs plan_text (background_of b) = Inr out \<longrightarrow>
              outcome (caller_call w self plan_text b) = Inr (strip post) \<and>
              http_requests (events (caller_call w self plan_text b)) = [] \<and>
              spec_after (caller_call w self plan_text b) = api_spec self)"
proof -
  let ?post = "last (py_split ''Execution Result:'' out)"
  from py_split_last_after[OF _ assms] obtain pre where "out = pre @ ''Execution Result:'' @ ?post"
    by auto
  moreover have "\<not> contains ''Execution Result:'' ?post"
    by (rule py_split_last_clean) simp
  moreover note parsed = done_parsed[OF assms]
  moreover have "outcome (caller_call w self plan_text b) = Inr (strip ?post) \<and>
              http_requests (events (caller_call w self plan_text b)) = [] \<and>
              spec_after (caller_call w self plan_text b) = api_spec self"
    if "prepare_api_docs w self plan_text = Inr (docs, api_url)"
      and "llm w api_url docs plan_text (background_of b) = Inr out"
    for w self plan_text b docs api_url
    using caller_call_done[OF that parsed] by simp
  ultimately show ?thesis by blast
qed


lemma execute_action_unmatched:
  assumes "get_matched_endpoint w (api_spec self) plan_text = None"
  shows "\<exists>e. outcome (execute_action w self plan_text api_url out action action_input evs) = Inl e"
  using assms
  by (auto simp: execute_action_def and_then_def first_match_def Let_def
      split: sum.splits prod.splits)

text \<open>
  Claim C4, on the code. When the matcher reports no match for the plan step,
  \<open>_prepare_api_docs\<close> returns the empty excerpt and the empty base URL, and the
  completion service is asked with them. When the completion is an action (not the
  done signal), the step never returns a result: whatever the HTTP call gave, the
  second resolution of the plan step, \<open>get_matched_endpoint(self.api_spec, api_plan)[0]\<close>,
  subscripts \<open>None\<close>, if nothing has raised before.
\<close>

theorem unmatched_plan_raises:
  assumes "servers (api_spec self) = server # others"
    and "map_of server ''url'' = Some api_url"
    and "get_matched_endpoint w (api_spec self) plan_text = None"
    and "llm w [] [] plan_text (background_of b) = Inr out"
    and "get_action_and_input out = Inr (action, action_input)"
    and "action \<noteq> ''DONE''"
  shows "prepare_api_docs w self plan_text = Inr ([], []) \<and>
         (\<exists>e. outcome (caller_call w self plan_text b) = Inl e)"
proof -
  have prep: "prepare_api_docs w self plan_text = Inr ([], [])"
    using assms(1-3) by (simp add: prepare_api_docs_def)
  from execute_action_unmatched[OF assms(3)] obtain e where
    "outcome (execute_action w self plan_text [] out action action_input
       [LlmInvoke [] [] plan_text (background_of b)]) = Inl e" by blast
  with prep assms(4-6) have "outcome (caller_call w self plan_text b) = Inl e"
    by (simp add: caller_call_def Let_def)
  with prep show ?thesis by blast
qed

lemmas demo_defs = demo_externals_def demo_caller_def demo_spec_def demo_loads_def
  demo_action_input_def demo_completion_def quoted_def

lemma demo_parse: "get_action_and_input demo_completion = Inr (''GET'', demo_action_input)"
  by (simp add: parse_simps demo_completion_def demo_action_input_def quoted_def)

lemma demo_prepare:
  "prepare_api_docs (demo_externals (\<lambda>t. Some [''GET /a'']) c r) demo_caller ''GET /a''
     = Inr (docs_header ''GET /a'' @ ''yaml'' @ [newline], ''http://h'')"
  by (simp add: prepare_api_docs_def demo_externals_def demo_caller_def demo_spec_def
        endpoint_docs_by_name_def deref_def flatten_responses_def drop_responses_def
        and_then_def py_in_def limit_docs_def)

theorem unmatched_plan_raises_witness:
  "prepare_api_docs
     (demo_externals (\<lambda>t. if t = ''GET http://h/a'' then Some [''GET /a''] else None)
        demo_completion (Response 200 ''{}''))
     demo_caller ''list the movies'' = Inr ([], []) \<and>
   outcome (caller_call
     (demo_externals (\<lambda>t. if t = ''GET http://h/a'' then Some [''GET /a''] else None)
        demo_completion (Response 200 ''{}''))
     demo_caller ''list the movies'' None) = Inl TypeError"
proof -
  let ?w = "demo_externals (\<lambda>t. if t = ''GET http://h/a'' then Some [''GET /a''] else None)
              demo_completion (Response 200 ''{}'')"
  have h1: "servers (api_spec demo_caller) = [(''url'', ''http://h'')] # []"
    by (simp add: demo_caller_def demo_spec_def)
  have h2: "map_of [(''url'', ''http://h'')] ''url'' = Some ''http://h''" by simp
  have h3: "get_matched_endpoint ?w (api_spec demo_caller) ''list the movies'' = None"
    by (simp add: demo_externals_def)
  have h4: "llm ?w [] [] ''list the movies'' (background_of None) = Inr demo_completion"
    by (simp add: demo_externals_def)
  have h6: "''GET'' \<noteq> ''DONE''" by simp
  have run: "outcome (caller_call ?w demo_caller ''list the movies'' None) = Inl TypeError"
    using unmatched_plan_raises[OF h1 h2 h3 h4 demo_parse h6] demo_parse
    by (simp add: caller_call_def execute_action_def get_response_def and_then_def
          demo_externals_def demo_loads_def py_get_def py_in_def py_getitem_def build_request_def
          classify_response_def unpack5_def called_name_def url_of_def first_match_def
          background_of_def replace_all.simps Let_def)
  with unmatched_plan_raises[OF h1 h2 h3 h4 demo_parse h6] show ?thesis by simp
qed

lemma prepare_header:
  assumes "prepare_api_docs w self plan_text = Inr (docs, api_url)"
    and "get_matched_endpoint w (api_spec self) plan_text = Some ms"
  shows "\<exists>shaped. docs = docs_header (last ms) @ limit_docs w (yaml_dump w shaped) @ [newline]"
  using assms
  by (auto simp: prepare_api_docs_def and_then_def Let_def split: list.splits option.splits if_splits sum.splits)

lemma execute_action_parser:
  assumes "ParserInvoke api_path api_doc query desc api_param response
             \<in> set (events (execute_action w self plan_text api_url out action action_input evs))"
    and "\<forall>e \<in> set evs. \<not> (\<exists>p d q s a r. e = ParserInvoke p d q s a r)"
  shows "(\<exists>called name rest. get_matched_endpoint w (api_spec self) called = Some (name # rest) \<and>
           api_path = api_url @ last (py_split '' '' name)) \<and> length response \<le> 7500"
  using assms
  by (auto simp: execute_action_def and_then_def first_match_def Let_def
      split: sum.splits prod.splits option.splits list.splits; blast)

lemma caller_call_parser:
  assumes "ParserInvoke api_path api_doc query desc api_param response
             \<in> set (events (caller_call w self plan_text b))"
    and "prepare_api_docs w self plan_text = Inr (docs, api_url)"
  shows "\<exists>called name rest. get_matched_endpoint w (api_spec self) called = Some (name # rest) \<and>
           api_path = api_url @ last (py_split '' '' name)"
proof -
  from assms obtain out action action_input where
    "ParserInvoke api_path api_doc query desc api_param response
       \<in> set (events (execute_action w self plan_text api_url out action action_input
                  [LlmInvoke api_url docs plan_text (background_of b)]))"
    by (auto simp: caller_call_def Let_def split: sum.splits prod.splits if_splits)
  from execute_action_parser[OF this] show ?thesis by simp
qed

text \<open>
  Claim C5, on the code. For a plan step with candidates \<open>ms\<close>, the excerpt given to the
  completion service starts with the header of the last candidate, while the
  interpreter of the same step is built on the path of the first candidate that the
  matcher gave for the called URL.
\<close>

theorem candidates_last_then_first:
  assumes "prepare_api_docs w self plan_text = Inr (docs, api_url)"
    and "get_matched_endpoint w (api_spec self) plan_text = Some ms"
    and "ParserInvoke api_path api_doc query desc api_param response
           \<in> set (events (caller_call w self plan_text b))"
  shows "starts_with (docs_header (last ms)) docs \<and>
         (\<exists>called name rest. get_matched_endpoint w (api_spec self) called = Some (name # rest) \<and>
            api_path = api_url @ last (py_split '' '' name))"
proof -
  from prepare_header[OF assms(1,2)] have "starts_with (docs_header (last ms)) docs"
    by (auto simp: starts_with_def)
  with caller_call_parser[OF assms(3,1)] show ?thesis by simp
qed

lemma demo_prepare_two:
  "prepare_api_docs (demo_externals (\<lambda>t. Some [''GET /a'', ''GET /b'']) c r) demo_caller plan_text
     = Inr (docs_header ''GET /b'' @ ''yaml'' @ [newline], ''http://h'')"
  by (simp add: prepare_api_docs_def demo_externals_def demo_caller_def demo_spec_def
        endpoint_docs_by_name_def deref_def flatten_responses_def drop_responses_def
        and_then_def py_in_def limit_docs_def)

lemma demo_externals_sel:
  "get_matched_endpoint (demo_externals m c r) = (\<lambda>spec text. m text)"
  "yaml_dump (demo_externals m c r) = (\<lambda>doc. ''yaml'')"
  "encode (demo_externals m c r) = map of_char"
  "decode (demo_externals m c r) = map char_of"
  "llm (demo_externals m c r) = (\<lambda>api_url docs plan_text background_text. Inr c)"
  "json_loads (demo_externals m c r) = demo_loads"
  "requests_wrapper (demo_externals m c r) = (\<lambda>req. Inr r)"
  "parser_class (demo_externals m c r) =
     (\<lambda>api_path api_doc query desc api_param response_text. Inr ''parsed'')"
  by (simp_all add: demo_externals_def)

lemma demo_caller_sel:
  "api_spec demo_caller = demo_spec" "scenario demo_caller = ''tmdb''"
  "with_response demo_caller = False"
  by (simp_all add: demo_caller_def)

lemma demo_loads_simps:
  "demo_loads demo_action_input = Some (JObj [(''url'', JStr ''http://h/a'')])"
  "demo_loads search_action_input = Some (JObj [(''url'', JStr ''http://h/search?q=x&type=track'')])"
  by (simp_all add: demo_loads_def demo_action_input_def search_action_input_def quoted_def)

lemmas run_simps = caller_call_def execute_action_def get_response_def and_then_def
  py_get_def py_in_def py_getitem_def build_request_def classify_response_def unpack5_def
  called_name_def url_of_def first_match_def background_of_def replace_all.simps py_split.simps
  starts_with_def narrow_search_schema_def endpoint_docs_by_name_def deref_def params_or_data_def
  Let_def

lemma demo_run_two:
  "caller_call (demo_externals (\<lambda>t. Some [''GET /a'', ''GET /b'']) demo_completion (Response 200 ''{}''))
     demo_caller ''GET /a then GET /b'' None =
     \<lparr>outcome = Inr (demo_completion @ [newline] @ ''Observation: parsed''),
      events = [LlmInvoke ''http://h'' (docs_header ''GET /b'' @ ''yaml'' @ [newline]) ''GET /a then GET /b'' [],
                HttpRequest (Get (JStr ''http://h/a'') None),
                ParserInvoke ''http://h/a'' (JObj [(''description'', JStr ''docs of a'')]) JNull
                  (JStr ''No description'')
                  (JObj [(''params'', JStr ''No parameters''), (''data'', JStr ''No request body'')]) ''{}''],
      spec_after = demo_spec\<rparr>"
  by (simp add: run_simps demo_prepare_two demo_parse demo_externals_sel demo_caller_sel
        demo_loads_simps demo_spec_def)

theorem candidates_last_then_first_witness:
  "starts_with (docs_header (last [''GET /a'', ''GET /b''])) (docs_header ''GET /b'' @ ''yaml'' @ [newline]) \<and>
   ParserInvoke ''http://h/a'' (JObj [(''description'', JStr ''docs of a'')]) JNull
       (JStr ''No description'')
       (JObj [(''params'', JStr ''No parameters''), (''data'', JStr ''No request body'')]) ''{}''
     \<in> set (events (caller_call
         (demo_externals (\<lambda>t. Some [''GET /a'', ''GET /b'']) demo_completion (Response 200 ''{}''))
         demo_caller ''GET /a then GET /b'' None))"
proof -
  let ?w = "demo_externals (\<lambda>t. Some [''GET /a'', ''GET /b'']) demo_completion (Response 200 ''{}'')"
  have h2: "get_matched_endpoint ?w (api_spec demo_caller) ''GET /a then GET /b''
              = Some [''GET /a'', ''GET /b'']"
    by (simp add: demo_externals_sel)
  have h3: "ParserInvoke ''http://h/a'' (JObj [(''description'', JStr ''docs of a'')]) JNull
       (JStr ''No description'')
       (JObj [(''params'', JStr ''No parameters''), (''data'', JStr ''No request body'')]) ''{}''
     \<in> set (events (caller_call ?w demo_caller ''GET /a then GET /b'' None))"
    by (simp add: demo_run_two)
  from candidates_last_then_first[OF demo_prepare_two h2 h3] h3 show ?thesis by simp
qed

lemma map_of_dict_set: "map_of (dict_set k v kvs) k = Some v"
  by (induction kvs) auto

lemma get_after_set_path: "set_path x ks k v = Inr x' \<Longrightarrow> get_path x' (ks @ [k]) = Inr v"
proof (induction ks arbitrary: x x')
  case Nil
  then show ?case
    by (auto simp: py_setitem_def py_getitem_def and_then_def map_of_dict_set split: json.splits)
next
  case (Cons k1 ks)
  from Cons.prems obtain child child' where
    c: "py_getitem x k1 = Inr child" "set_path child ks k v = Inr child'"
       "py_setitem x k1 child' = Inr x'"
    by (auto simp: and_then_def split: sum.splits)
  from c(3) have "py_getitem x' k1 = Inr child'"
    by (auto simp: py_setitem_def py_getitem_def map_of_dict_set split: json.splits)
  with Cons.IH[OF c(2)] show ?case by (simp add: and_then_def)
qed

lemma deref_store: "i < length (endpoints spec) \<Longrightarrow> deref (store spec i doc) (Some i) = doc"
  by (simp add: deref_def store_def)

lemma index_by_name_bound: "index_by_name k es name = Some i \<Longrightarrow> k \<le> i \<and> i < k + length es"
proof (induction es arbitrary: k)
  case Nil
  then show ?case by simp
next
  case (Cons e es)
  show ?case
  proof (cases "index_by_name (Suc k) es name")
    case None
    with Cons.prems show ?thesis by (auto split: if_splits)
  next
    case (Some j)
    with Cons.prems have "i = j" by simp
    with Cons.IH[of "Suc k"] Some show ?thesis by simp
  qed
qed

lemma endpoint_docs_by_name_bound:
  "endpoint_docs_by_name spec name = Some i \<Longrightarrow> i < length (endpoints spec)"
  using index_by_name_bound[of 0 "endpoints spec" name i] by (simp add: endpoint_docs_by_name_def)

lemma narrow_cases:
  assumes "narrow_search_schema w self endpoint_name params action_input doc_ref = Inr spec'"
  shows "spec' = api_spec self \<or>
         (scenario self = ''spotify'' \<and> endpoint_name = ''GET /search'' \<and>
          (\<exists>i search_type kept narrowed. doc_ref = Some i \<and>
             get_path (deref (api_spec self) (Some i)) (schema_path @ [''properties'', search_type]) = Inr kept \<and>
             set_path (deref (api_spec self) (Some i)) schema_path ''properties'' (JObj [(search_type, kept)])
               = Inr narrowed \<and>
             spec' = store (api_spec self) i narrowed))"
  using assms
  by (auto simp: narrow_search_schema_def and_then_def Let_def split: sum.splits if_splits option.splits)

lemma execute_action_spec:
  "spec_after (execute_action w self plan_text api_url out action action_input evs) = api_spec self \<or>
   (\<exists>endpoint_name params name.
      narrow_search_schema w self endpoint_name params action_input
        (endpoint_docs_by_name (api_spec self) name)
      = Inr (spec_after (execute_action w self plan_text api_url out action action_input evs)))"
  by (auto simp: execute_action_def and_then_def Let_def split: sum.splits prod.splits)

lemma caller_call_spec:
  "spec_after (caller_call w self plan_text b) = api_spec self \<or>
   (\<exists>endpoint_name params action_input name.
      narrow_search_schema w self endpoint_name params action_input
        (endpoint_docs_by_name (api_spec self) name)
      = Inr (spec_after (caller_call w self plan_text b)))"
proof (cases "\<exists>api_url out action action_input evs.
    caller_call w self plan_text b = execute_action w self plan_text api_url out action action_input evs")
  case True
  then obtain api_url out action action_input evs where
    "caller_call w self plan_text b = execute_action w self plan_text api_url out action action_input evs"
    by blast
  with execute_action_spec[of w self plan_text api_url out action action_input evs]
  show ?thesis by auto
next
  case False
  then have "spec_after (caller_call w self plan_text b) = api_spec self"
    by (auto simp: caller_call_def Let_def split: sum.splits prod.splits if_splits; blast)
  then show ?thesis ..
qed

text \<open>
  Claim C2, on the code. An execution step leaves the specification as it found it, or
  (in the spotify scenario, when the narrowing of the search schema ran to its end) it
  has changed one documentation object of \<open>api_spec.endpoints\<close> in place, the object
  \<open>endpoint_docs_by_name\<close> refers to: the response properties of that object are now
  the single entry for the search type, which was one of the entries before.
\<close>

theorem narrowing_changes_shared_documentation:
  "spec_after (caller_call w self plan_text b) = api_spec self \<or>
   (scenario self = ''spotify'' \<and>
    (\<exists>i search_type kept narrowed.
       i < length (endpoints (api_spec self)) \<and>
       get_path (deref (api_spec self) (Some i)) (schema_path @ [''properties'', search_type]) = Inr kept \<and>
       spec_after (caller_call w self plan_text b) = store (api_spec self) i narrowed \<and>
       get_path narrowed (schema_path @ [''properties'']) = Inr (JObj [(search_type, kept)])))"
proof (cases "spec_after (caller_call w self plan_text b) = api_spec self")
  case True
  then show ?thesis ..
next
  case False
  with caller_call_spec[of w self plan_text b] obtain endpoint_name params action_input name where
    "narrow_search_schema w self endpoint_name params action_input
        (endpoint_docs_by_name (api_spec self) name)
      = Inr (spec_after (caller_call w self plan_text b))" by blast
  from narrow_cases[OF this] False obtain i search_type kept narrowed where
    sp: "scenario self = ''spotify''"
    and i: "endpoint_docs_by_name (api_spec self) name = Some i"
    and k: "get_path (deref (api_spec self) (Some i)) (schema_path @ [''properties'', search_type]) = Inr kept"
    and n: "set_path (deref (api_spec self) (Some i)) schema_path ''properties'' (JObj [(search_type, kept)])
               = Inr narrowed"
    and s: "spec_after (caller_call w self plan_text b) = store (api_spec self) i narrowed"
    by blast
  from endpoint_docs_by_name_bound[OF i] k s get_after_set_path[OF n] sp
  show ?thesis by blast
qed

lemmas spotify_defs = spotify_caller_def spotify_spec_def search_doc_def schema_path_def

lemma search_parse: "get_action_and_input search_completion = Inr (''GET'', search_action_input)"
  by (simp add: parse_simps search_completion_def search_action_input_def quoted_def)

lemma spotify_prepare:
  "prepare_api_docs (demo_externals (\<lambda>t. Some [''GET /search'']) c r) spotify_caller plan_text
     = Inr (docs_header ''GET /search'' @ ''yaml'' @ [newline], ''http://h'')"
  by (simp add: prepare_api_docs_def demo_externals_sel spotify_defs
        endpoint_docs_by_name_def deref_def flatten_responses_def drop_responses_def
        and_then_def py_in_def py_getitem_def py_setitem_def py_pop_def limit_docs_def)

lemma spotify_narrow:
  "narrow_search_schema (demo_externals (\<lambda>t. Some [''GET /search'']) c r) spotify_caller
     ''GET /search'' JNull search_action_input (Some 0) =
   Inr (spotify_spec\<lparr>endpoints := [(''GET /search'', None, search_doc [(''tracks'', JStr ''track objects'')])]\<rparr>)"
  by (simp add: narrow_search_schema_def search_type_of_def url_of_def demo_externals_sel
        demo_loads_simps spotify_defs and_then_def py_getitem_def py_setitem_def py_in_def
        py_split.simps starts_with_def deref_def store_def Let_def)

lemma spotify_run:
  "caller_call (demo_externals (\<lambda>t. Some [''GET /search'']) search_completion (Response 200 ''{}''))
     spotify_caller ''GET /search to find the track x'' None =
     \<lparr>outcome = Inr (search_completion @ [newline] @ ''Observation: parsed''),
      events = [LlmInvoke ''http://h'' (docs_header ''GET /search'' @ ''yaml'' @ [newline])
                  ''GET /search to find the track x'' [],
                HttpRequest (Get (JStr ''http://h/search?q=x&type=track'') None),
                ParserInvoke ''http://h/search'' (search_doc [(''tracks'', JStr ''track objects'')]) JNull
                  (JStr ''No description'')
                  (JObj [(''params'', JStr ''No parameters''), (''data'', JStr ''No request body'')]) ''{}''],
      spec_after = spotify_spec\<lparr>endpoints :=
        [(''GET /search'', None, search_doc [(''tracks'', JStr ''track objects'')])]\<rparr>\<rparr>"
proof -
  let ?w = "demo_externals (\<lambda>t. Some [''GET /search'']) search_completion (Response 200 ''{}'')"
  have called: "called_name ?w ''GET'' search_action_input ''http://h'' = Inr ''GET /search?q=x&type=track''"
    by (simp add: called_name_def url_of_def demo_externals_sel demo_loads_simps and_then_def
          py_getitem_def replace_all.simps starts_with_def)
  have ref: "endpoint_docs_by_name (api_spec spotify_caller) ''GET /search'' = Some 0"
    by (simp add: endpoint_docs_by_name_def spotify_defs)
  have response: "get_response ?w ''GET'' search_action_input =
      ([Get (JStr ''http://h/search?q=x&type=track'') None],
       Inr (Tuple5 ''{}'' JNull JNull (JStr ''No description'') JNull))"
    by (simp add: get_response_def demo_externals_sel demo_loads_simps and_then_def py_get_def
          py_in_def build_request_def classify_response_def)
  have path: "last (py_split '' '' ''GET /search'') = ''/search''"
    by (simp add: py_split.simps starts_with_def)
  show ?thesis
    by (simp add: caller_call_def spotify_prepare search_parse execute_action_def response called
          ref spotify_narrow path unpack5_def first_match_def and_then_def demo_externals_sel
          background_of_def params_or_data_def Let_def)
       (simp add: deref_def spotify_defs)
qed

theorem narrowing_changes_shared_documentation_witness:
  "spec_after (caller_call
       (demo_externals (\<lambda>t. Some [''GET /search'']) search_completion (Response 200 ''{}''))
       spotify_caller ''GET /search to find the track x'' None)
     = store (api_spec spotify_caller) 0 (search_doc [(''tracks'', JStr ''track objects'')]) \<and>
   store (api_spec spotify_caller) 0 (search_doc [(''tracks'', JStr ''track objects'')])
     \<noteq> api_spec spotify_caller \<and>
   deref (api_spec spotify_caller) (Some 0)
     = search_doc [(''tracks'', JStr ''track objects''), (''artists'', JStr ''artist objects'')] \<and>
   get_path (search_doc [(''tracks'', JStr ''track objects'')]) (schema_path @ [''properties''])
     = Inr (JObj [(''tracks'', JStr ''track objects'')])"
proof -
  let ?w = "demo_externals (\<lambda>t. Some [''GET /search'']) search_completion (Response 200 ''{}'')"
  have after: "spec_after (caller_call ?w spotify_caller ''GET /search to find the track x'' None)
      = store (api_spec spotify_caller) 0 (search_doc [(''tracks'', JStr ''track objects'')])"
    by (simp add: spotify_run) (simp add: store_def spotify_defs)
  have changed: "store (api_spec spotify_caller) 0 (search_doc [(''tracks'', JStr ''track objects'')])
      \<noteq> api_spec spotify_caller"
    by (simp add: store_def spotify_defs)
  have before: "deref (api_spec spotify_caller) (Some 0)
      = search_doc [(''tracks'', JStr ''track objects''), (''artists'', JStr ''artist objects'')]"
    by (simp add: deref_def spotify_defs)
  have props: "get_path (search_doc [(''tracks'', JStr ''track objects'')]) (schema_path @ [''properties''])
      = Inr (JObj [(''tracks'', JStr ''track objects'')])"
    by (simp add: spotify_defs and_then_def py_getitem_def)
  from narrowing_changes_shared_documentation
         [of ?w spotify_caller "''GET /search to find the track x''" None]
       after changed before props
  show ?thesis by simp
qed




















lemma done_prepare:
  "prepare_api_docs (demo_externals (\<lambda>t. None) c r) demo_caller plan_text = Inr ([], [])"
  by (simp add: prepare_api_docs_def demo_externals_sel demo_caller_sel demo_spec_def)

text \<open>
  The text after the marker starts with a space; the done signal does not.
\<close>

theorem done_signal_strips:
  "drop (length ''Execution Result:'') ''Execution Result: X'' = '' X'' \<and>
   get_action_and_input ''Execution Result: X'' = Inr (''DONE'', ''X'')"
  by (simp add: parse_simps py_split.simps)

theorem done_signal_witness:
  "contains ''Execution Result:'' (''Operation: GET Input: {} Execution Result: all done '') \<and>
   get_action_and_input (''Operation: GET Input: {} Execution Result: all done '')
     = Inr (''DONE'', ''all done'') \<and>
   outcome (caller_call
       (demo_externals (\<lambda>t. None) ''Operation: GET Input: {} Execution Result: all done '' Other)
       demo_caller ''say that all is done'' None) = Inr ''all done'' \<and>
   http_requests (events (caller_call
       (demo_externals (\<lambda>t. None) ''Operation: GET Input: {} Execution Result: all done '' Other)
       demo_caller ''say that all is done'' None)) = []"
proof -
  let ?out = "''Operation: GET Input: {} Execution Result: all done ''"
  let ?w = "demo_externals (\<lambda>t. None) ?out Other"
  have c: "contains ''Execution Result:'' ?out" by (simp add: starts_with_def)
  have p: "get_action_and_input ?out = Inr (''DONE'', ''all done'')"
    by (simp add: parse_simps py_split.simps)
  have l: "llm ?w [] [] ''say that all is done'' (background_of None) = Inr ?out"
    by (simp add: demo_externals_sel)
  from done_signal[OF c] obtain pre post where
    "?out = pre @ ''Execution Result:'' @ post"
    and "get_action_and_input ?out = Inr (''DONE'', strip post)"
    and r: "\<forall>w self plan_text b docs api_url.
              prepare_api_docs w self plan_text = Inr (docs, api_url) \<longrightarrow>
              llm w api_url docs plan_text (background_of b) = Inr ?out \<longrightarrow>
              outcome (caller_call w self plan_text b) = Inr (strip post) \<and>
              http_requests (events (caller_call w self plan_text b)) = [] \<and>
              spec_after (caller_call w self plan_text b) = api_spec self"
    by blast
  with p have "strip post = ''all done''" by simp
  with r done_prepare[of ?out Other "''say that all is done''"] l
  have "outcome (caller_call ?w demo_caller ''say that all is done'' None) = Inr ''all done'' \<and>
        http_requests (events (caller_call ?w demo_caller ''say that all is done'' None)) = []"
    by metis
  with c p show ?thesis by simp
qed

theorem operation_gate_witness:
  "get_action_and_input (''Operation: PUT'' @ [newline] @ ''Input: ```{}```'') = Inr (''PUT'', ''{}'') \<and>
   get_action_and_input (''Operation: HEAD'' @ [newline] @ ''Input: {}'') = Inl NotImplementedError"
proof -
  let ?put = "''Operation: PUT'' @ [newline] @ ''Input: ```{}```''"
  let ?head = "''Operation: HEAD'' @ [newline] @ ''Input: {}''"
  have c1: "\<not> contains ''Execution Result:'' ?put" by (simp add: starts_with_def newline_def)
  have s1: "search_operation_input ?put = Some (''PUT'', ''```{}```'')"
    by (simp add: parse_simps)
  have c2: "\<not> contains ''Execution Result:'' ?head" by (simp add: starts_with_def newline_def)
  have s2: "search_operation_input ?head = Some (''HEAD'', ''{}'')"
    using pair_found(1)[of "[]" "'' ''" "''HEAD''" "[newline]" "'' {}''"]
    by (simp add: is_space_def newline_def)
  have t1: "strip ''PUT'' = ''PUT''" and t2: "strip ''HEAD'' = ''HEAD''"
    by (simp_all add: parse_simps)
  from operation_gate[OF c2 s2] t2
  have "get_action_and_input ?head = Inl NotImplementedError" by simp
  moreover from operation_gate[OF c1 s1] t1 put_accepted
  have "get_action_and_input ?put = Inr (''PUT'', ''{}'')" by simp
  ultimately show ?thesis by simp
qed












end
